theory Spec2Isabelle
  imports Complex_Main "HOL-Library.Log_Nat" "HOL-Library.Word"
begin

section \<open>JavaScript numbers\<close>

text \<open>
  A JavaScript \<^verbatim>\<open>number\<close> is an IEEE 754 binary64 value. It is modelled in
  sign-magnitude form, as the format itself is: \<open>NaN\<close>, an infinity with its sign
  (\<open>True\<close> is negative), or a finite value with its sign and its magnitude. The
  magnitude of a value the program can hold is a non-negative real of the form
  \<open>m * 2 powi e\<close> with \<open>m < 2 ^ 53\<close> and \<open>- 1074 \<le> e\<close>, below \<open>2 ^ 1024\<close>;
  \<open>Num False 0\<close> is \<open>+0\<close> and \<open>Num True 0\<close> is \<open>-0\<close>. An arithmetic operation
  returns its exact real result rounded to binary64, as IEEE 754 prescribes for
  addition, subtraction, multiplication, division and the square root.
\<close>

datatype number = NaN | Infty bool | Num bool real

fun val :: "number \<Rightarrow> real" where
  "val (Num s a) = (if s then - a else a)"
| "val _ = 0"

fun isNaN :: "number \<Rightarrow> bool" where
  "isNaN NaN = True"
| "isNaN _ = False"

fun isFinite :: "number \<Rightarrow> bool" where
  "isFinite (Num _ _) = True"
| "isFinite _ = False"

subsection \<open>Rounding to nearest, ties to even\<close>

text \<open>
  \<open>ilog2 x\<close> is the binary exponent \<open>\<lfloor>log 2 x\<rfloor>\<close> of a positive real, computed from
  bit lengths. \<open>quantum x\<close> is the distance between neighbouring binary64 values around
  \<open>x\<close>: 53 significant bits, and never finer than \<open>2 powi - 1074\<close> (the subnormal
  range). \<open>round64 s x\<close> rounds the magnitude \<open>x\<close> to the nearest multiple of its
  quantum, a tie going to the even multiple, and overflows to the infinity of sign \<open>s\<close>
  when the rounded magnitude reaches \<open>2 ^ 1024\<close>.
\<close>

definition ilog2 :: "real \<Rightarrow> int" where
  "ilog2 x = (if 1 \<le> x then bitlen \<lfloor>x\<rfloor> - 1 else - bitlen (\<lceil>1 / x\<rceil> - 1))"

definition round_half_even :: "real \<Rightarrow> int" where
  "round_half_even r =
     (let f = \<lfloor>r\<rfloor>; d = r - of_int f
      in if d < 1 / 2 then f else if 1 / 2 < d then f + 1 else if even f then f else f + 1)"

definition quantum :: "real \<Rightarrow> real" where
  "quantum x = 2 powi (max (ilog2 x - 52) (- 1074))"

definition round64 :: "bool \<Rightarrow> real \<Rightarrow> number" where
  "round64 s x =
     (if x = 0 then Num s 0
      else let q = quantum x; y = of_int (round_half_even (x / q)) * q
           in if 2 ^ 1024 \<le> y then Infty s else Num s y)"

text \<open>A well-formed binary64 value: rounding leaves its magnitude as it is.\<close>

fun double :: "number \<Rightarrow> bool" where
  "double (Num s a) = (0 \<le> a \<and> round64 s a = Num s a)"
| "double _ = True"

subsection \<open>Arithmetic\<close>

fun fneg :: "number \<Rightarrow> number" where
  "fneg NaN = NaN"
| "fneg (Infty s) = Infty (\<not> s)"
| "fneg (Num s a) = Num (\<not> s) a"

fun fadd :: "number \<Rightarrow> number \<Rightarrow> number" where
  "fadd NaN _ = NaN"
| "fadd _ NaN = NaN"
| "fadd (Infty s) (Infty t) = (if s = t then Infty s else NaN)"
| "fadd (Infty s) (Num _ _) = Infty s"
| "fadd (Num _ _) (Infty t) = Infty t"
| "fadd (Num s a) (Num t b) =
     (let v = val (Num s a) + val (Num t b)
      in if v = 0 then Num (s \<and> t) 0 else round64 (v < 0) \<bar>v\<bar>)"

text \<open>
  A sum that is exactly zero is \<open>+0\<close>, unless both operands are negative (then both
  are \<open>-0\<close> and so is the sum). IEEE 754 subtraction is addition of the negated operand.
\<close>

definition fsub :: "number \<Rightarrow> number \<Rightarrow> number" where
  "fsub x y = fadd x (fneg y)"

fun fmul :: "number \<Rightarrow> number \<Rightarrow> number" where
  "fmul NaN _ = NaN"
| "fmul _ NaN = NaN"
| "fmul (Infty s) (Infty t) = Infty (s \<noteq> t)"
| "fmul (Infty s) (Num t b) = (if b = 0 then NaN else Infty (s \<noteq> t))"
| "fmul (Num s a) (Infty t) = (if a = 0 then NaN else Infty (s \<noteq> t))"
| "fmul (Num s a) (Num t b) = round64 (s \<noteq> t) (a * b)"

fun fdiv :: "number \<Rightarrow> number \<Rightarrow> number" where
  "fdiv NaN _ = NaN"
| "fdiv _ NaN = NaN"
| "fdiv (Infty s) (Infty t) = NaN"
| "fdiv (Infty s) (Num t b) = Infty (s \<noteq> t)"
| "fdiv (Num s a) (Infty t) = Num (s \<noteq> t) 0"
| "fdiv (Num s a) (Num t b) =
     (if b = 0 then (if a = 0 then NaN else Infty (s \<noteq> t))
      else round64 (s \<noteq> t) (a / b))"

text \<open>The comparisons \<^verbatim>\<open>===\<close> and \<^verbatim>\<open><\<close>: false whenever an operand is \<open>NaN\<close>; the two
  zeros are equal.\<close>

fun feq :: "number \<Rightarrow> number \<Rightarrow> bool" where
  "feq NaN _ = False"
| "feq _ NaN = False"
| "feq (Infty s) (Infty t) = (s = t)"
| "feq (Num s a) (Num t b) = (val (Num s a) = val (Num t b))"
| "feq _ _ = False"

fun flt :: "number \<Rightarrow> number \<Rightarrow> bool" where
  "flt NaN _ = False"
| "flt _ NaN = False"
| "flt (Infty s) (Infty t) = (s \<and> \<not> t)"
| "flt (Infty s) (Num _ _) = s"
| "flt (Num _ _) (Infty t) = (\<not> t)"
| "flt (Num s a) (Num t b) = (val (Num s a) < val (Num t b))"

subsection \<open>The \<^verbatim>\<open>Math\<close> object\<close>

text \<open>\<^verbatim>\<open>Math.PI\<close> is the binary64 value \<^verbatim>\<open>0x400921FB54442D18\<close>.\<close>

definition Math_PI :: number where
  "Math_PI = Num False (884279719003555 / 2 ^ 48)"

fun Math_abs :: "number \<Rightarrow> number" where
  "Math_abs NaN = NaN"
| "Math_abs (Infty _) = Infty False"
| "Math_abs (Num _ a) = Num False a"

fun Math_sqrt :: "number \<Rightarrow> number" where
  "Math_sqrt NaN = NaN"
| "Math_sqrt (Infty s) = (if s then NaN else Infty False)"
| "Math_sqrt (Num s a) = (if a = 0 then Num s 0 else if s then NaN else round64 False (sqrt a))"

text \<open>
  \<^verbatim>\<open>Math.acos\<close>: ECMAScript fixes the result for \<open>NaN\<close>, for arguments outside
  \<open>[-1, 1]\<close> (both \<open>NaN\<close>) and for \<open>1\<close> (\<open>+0\<close>), and leaves the other results to the
  implementation as an approximation of the inverse cosine. What the implementation
  returns there is a parameter of the model: \<open>acos_impl v\<close> is the engine's result at
  an argument of value \<open>v\<close> in \<open>[-1, 1)\<close>. Nothing is assumed of it; a property that
  depends on one of its values says so.
\<close>

fun Math_acos :: "(real \<Rightarrow> number) \<Rightarrow> number \<Rightarrow> number" where
  "Math_acos acos_impl NaN = NaN"
| "Math_acos acos_impl (Infty _) = NaN"
| "Math_acos acos_impl (Num s a) =
     (let v = val (Num s a)
      in if 1 < v \<or> v < - 1 then NaN
         else if v = 1 then Num False 0
         else acos_impl v)"

text \<open>
  One implementation that ECMAScript admits returns the inverse cosine rounded to the
  nearest binary64 value. It stands for the engine wherever a property is evaluated on
  concrete vectors; engines are free to differ from it in the last digit.
\<close>

definition acos_rounded :: "real \<Rightarrow> number" where
  "acos_rounded v = round64 False (arccos v)"

text \<open>
  \<^verbatim>\<open>Math.max\<close> and \<^verbatim>\<open>Math.min\<close> of an argument list: \<open>NaN\<close> if any argument is
  \<open>NaN\<close>; otherwise a scan from \<open>-\<infinity>\<close> (from \<open>+\<infinity>\<close>) that keeps the larger (smaller)
  value, \<open>+0\<close> counting as larger than \<open>-0\<close>.
\<close>

fun max_step :: "number \<Rightarrow> number \<Rightarrow> number" where
  "max_step highest n =
     (if n = Num False 0 \<and> highest = Num True 0 then Num False 0
      else if flt highest n then n else highest)"

fun min_step :: "number \<Rightarrow> number \<Rightarrow> number" where
  "min_step lowest n =
     (if n = Num True 0 \<and> lowest = Num False 0 then Num True 0
      else if flt n lowest then n else lowest)"

definition Math_max :: "number list \<Rightarrow> number" where
  "Math_max ns = (if \<exists>n \<in> set ns. isNaN n then NaN else foldl max_step (Infty True) ns)"

definition Math_min :: "number list \<Rightarrow> number" where
  "Math_min ns = (if \<exists>n \<in> set ns. isNaN n then NaN else foldl min_step (Infty False) ns)"

section \<open>The similarity calculator (src/utils/mathUtils.ts)\<close>

record VectorResult =
  dotProduct :: number
  magnitudeA :: number
  magnitudeB :: number
  cosineSimilarity :: number
  angleDegrees :: number
  dimensions :: nat

text \<open>
  An array read \<^verbatim>\<open>vec[i]\<close>. Beyond the end JavaScript yields \<^verbatim>\<open>undefined\<close>, which
  every use in this program converts to a number at once; that number is \<open>NaN\<close>.
\<close>

definition at_index :: "number list \<Rightarrow> nat \<Rightarrow> number" where
  "at_index vec i = (if i < length vec then vec ! i else NaN)"

text \<open>The \<^verbatim>\<open>for\<close> loop of \<^verbatim>\<open>calculateCosineSimilarity\<close>, from index \<open>i\<close> on, with its three
  accumulators. A local variable that shares its name with a field of the result carries
  a prime.\<close>

function sum_loop ::
  "number list \<Rightarrow> number list \<Rightarrow> nat \<Rightarrow> number \<times> number \<times> number \<Rightarrow> number \<times> number \<times> number"
where
  "sum_loop vecA vecB i (dotProduct', sumSqA, sumSqB) =
     (if i < length vecA
      then sum_loop vecA vecB (i + 1)
             (fadd dotProduct' (fmul (at_index vecA i) (at_index vecB i)),
              fadd sumSqA (fmul (at_index vecA i) (at_index vecA i)),
              fadd sumSqB (fmul (at_index vecB i) (at_index vecB i)))
      else (dotProduct', sumSqA, sumSqB))"
  by pat_completeness auto
termination
  by (relation "measure (\<lambda>(vecA, vecB, i, acc). length vecA - i)") auto

declare sum_loop.simps [simp del]

definition calculateCosineSimilarity ::
  "(real \<Rightarrow> number) \<Rightarrow> number list \<Rightarrow> number list \<Rightarrow> VectorResult option"
where
  "calculateCosineSimilarity acos_impl vecA vecB =
     (if length vecA = 0 \<or> length vecB = 0 \<or> length vecA \<noteq> length vecB then None
      else
        let (dotProduct', sumSqA, sumSqB) =
              sum_loop vecA vecB 0 (Num False 0, Num False 0, Num False 0);
            magnitudeA' = Math_sqrt sumSqA;
            magnitudeB' = Math_sqrt sumSqB
        in if feq magnitudeA' (Num False 0) \<or> feq magnitudeB' (Num False 0)
           then Some \<lparr>dotProduct = dotProduct', magnitudeA = magnitudeA',
                      magnitudeB = magnitudeB', cosineSimilarity = Num False 0,
                      angleDegrees = Num False 0, dimensions = length vecA\<rparr>
           else
             let cosineSimilarity' = fdiv dotProduct' (fmul magnitudeA' magnitudeB');
                 clampedSimilarity =
                   Math_max [Num True 1, Math_min [Num False 1, cosineSimilarity']];
                 angleRadians = Math_acos acos_impl clampedSimilarity;
                 angleDegrees' = fmul angleRadians (fdiv (Num False 180) Math_PI)
             in Some \<lparr>dotProduct = dotProduct', magnitudeA = magnitudeA',
                       magnitudeB = magnitudeB', cosineSimilarity = clampedSimilarity,
                       angleDegrees = angleDegrees', dimensions = length vecA\<rparr>)"

subsection \<open>The calculator's contract, as the specification words it\<close>

text \<open>
  The quantities the specification names, each over binary64 arithmetic: the dot
  product \<open>\<Sum> a\<^sub>i * b\<^sub>i\<close> and the sums of squares, added up in index order from \<open>+0\<close>; the
  magnitude, the square root of the sum of squares; and the conversion of an angle
  from radians to degrees.
\<close>

definition dot_product_spec :: "number list \<Rightarrow> number list \<Rightarrow> number" where
  "dot_product_spec as bs = foldl fadd (Num False 0) (map2 fmul as bs)"

definition magnitude_spec :: "number list \<Rightarrow> number" where
  "magnitude_spec as = Math_sqrt (foldl fadd (Num False 0) (map (\<lambda>a. fmul a a) as))"

definition fle :: "number \<Rightarrow> number \<Rightarrow> bool" where
  "fle x y = (flt x y \<or> feq x y)"

text \<open>
  A value clamped to \<open>[-1, 1]\<close> is a number of that interval: \<open>1\<close> for a value of at
  least \<open>1\<close>, \<open>-1\<close> for a value of at most \<open>-1\<close>, and the value itself in between
  (\<open>fle\<close> is the comparison \<^verbatim>\<open><=\<close>). \<open>NaN\<close> compares with no number and no number of
  the interval is its clamp, so it has none.
\<close>

definition clamp_spec :: "number \<Rightarrow> number option" where
  "clamp_spec c =
     (if isNaN c then None
      else if fle (Num False 1) c then Some (Num False 1)
      else if fle c (Num True 1) then Some (Num True 1)
      else Some c)"

text \<open>
  The magnitude in the sense of the specification's glossary, the Euclidean norm: the
  square root of the sum of the squares of the components, over the real numbers.
\<close>

definition euclidean_magnitude :: "number list \<Rightarrow> real" where
  "euclidean_magnitude as = sqrt (sum_list (map (\<lambda>a. (val a)\<^sup>2) as))"

definition degrees_spec :: "number \<Rightarrow> number" where
  "degrees_spec r = fmul r (fdiv (Num False 180) Math_PI)"

text \<open>
  Two properties of a sum of squares, for the proof that a vector with a component
  of some size has a computed magnitude that is not zero: the sum is not negative,
  and the sum is at least the least positive binary64 value.
\<close>

definition not_negative :: "number \<Rightarrow> bool" where
  "not_negative n = (isNaN n \<or> n = Infty False \<or> (\<exists>y. n = Num False y \<and> 0 \<le> y))"

definition not_tiny :: "number \<Rightarrow> bool" where
  "not_tiny n = (isNaN n \<or> n = Infty False \<or> (\<exists>y. n = Num False y \<and> 2 powi (- 1074) \<le> y))"


section \<open>The vector parser (src/utils/mathUtils.ts)\<close>

text \<open>
  A JavaScript string is a sequence of UTF-16 code units. \<open>utf16\<close> writes an ASCII
  literal as such a sequence.
\<close>

type_synonym code_unit = "16 word"
type_synonym jsstring = "code_unit list"

definition utf16 :: "string \<Rightarrow> jsstring" where
  "utf16 s = map of_char s"

text \<open>
  The class \<^verbatim>\<open>\s\<close> of a regular expression, which is also what \<^verbatim>\<open>trim\<close> and
  \<^verbatim>\<open>parseFloat\<close> strip: the white space and line terminator code points of
  ECMAScript (tab, line feed, vertical tab, form feed, carriage return, space,
  no-break space, U+1680, U+2000 to U+200A, U+2028, U+2029, U+202F, U+205F, U+3000 and
  U+FEFF).
\<close>

definition isWhiteSpace :: "code_unit \<Rightarrow> bool" where
  "isWhiteSpace c =
     (c \<in> set [0x9, 0xA, 0xB, 0xC, 0xD, 0x20, 0xA0, 0x1680, 0x2028, 0x2029, 0x202F,
               0x205F, 0x3000, 0xFEFF]
      \<or> (0x2000 \<le> c \<and> c \<le> 0x200A))"

text \<open>The class \<^verbatim>\<open>[\s,]\<close> of the separator expression.\<close>

definition isSeparator :: "code_unit \<Rightarrow> bool" where
  "isSeparator c = (isWhiteSpace c \<or> c = of_char CHR '','')"

definition isDigit :: "code_unit \<Rightarrow> bool" where
  "isDigit c = (0x30 \<le> c \<and> c \<le> 0x39)"

definition digitValue :: "code_unit \<Rightarrow> nat" where
  "digitValue c = unat c - 48"

definition digitsValue :: "jsstring \<Rightarrow> nat" where
  "digitsValue ds = foldl (\<lambda>n c. 10 * n + digitValue c) 0 ds"

definition trimStart :: "jsstring \<Rightarrow> jsstring" where
  "trimStart s = dropWhile isWhiteSpace s"

definition trim :: "jsstring \<Rightarrow> jsstring" where
  "trim s = rev (dropWhile isWhiteSpace (rev (dropWhile isWhiteSpace s)))"

text \<open>
  \<^verbatim>\<open>parseFloat\<close> reads the longest prefix of the trimmed string that is a
  \<^verbatim>\<open>StrDecimalLiteral\<close>: an optional sign, then \<^verbatim>\<open>Infinity\<close> or decimal digits with an
  optional fraction and an optional exponent; what follows the prefix is ignored. With
  no such prefix the result is \<open>NaN\<close>. The value is the decimal value rounded to
  binary64 (for a literal of more than 20 significant digits ECMAScript lets an
  implementation round the decimal value to 20 digits first; the model rounds the
  exact value).

  \<open>exponentPart r\<close> is the value of the exponent part at the start of \<open>r\<close>, and \<open>0\<close>
  when \<open>r\<close> does not start with a complete one (an \<^verbatim>\<open>e\<close> with no digits after it and
  its sign is not part of the literal).
\<close>

definition exponentPart :: "jsstring \<Rightarrow> int" where
  "exponentPart r =
     (case r of
        [] \<Rightarrow> 0
      | c # r1 \<Rightarrow>
          if c = of_char CHR ''e'' \<or> c = of_char CHR ''E'' then
            (case r1 of
               [] \<Rightarrow> 0
             | d # r2 \<Rightarrow>
                 if d = of_char CHR ''+'' \<or> d = of_char CHR ''-'' then
                   (if takeWhile isDigit r2 = [] then 0
                    else if d = of_char CHR ''-''
                      then - int (digitsValue (takeWhile isDigit r2))
                      else int (digitsValue (takeWhile isDigit r2)))
                 else int (digitsValue (takeWhile isDigit r1)))
          else 0)"

definition strUnsignedDecimalLiteral :: "bool \<Rightarrow> jsstring \<Rightarrow> number" where
  "strUnsignedDecimalLiteral s t =
     (if take 8 t = utf16 ''Infinity'' then Infty s
      else
        let ip = takeWhile isDigit t;
            r1 = dropWhile isDigit t;
            hasDot = (r1 \<noteq> [] \<and> hd r1 = of_char CHR ''.'');
            fp = (if hasDot then takeWhile isDigit (tl r1) else []);
            r2 = (if hasDot then dropWhile isDigit (tl r1) else r1)
        in if ip = [] \<and> fp = [] then NaN
           else round64 s
                  ((real (digitsValue ip) + real (digitsValue fp) / 10 ^ length fp)
                   * 10 powi exponentPart r2))"

definition parseFloat :: "jsstring \<Rightarrow> number" where
  "parseFloat inputString =
     (let trimmed = trimStart inputString
      in case trimmed of
           [] \<Rightarrow> NaN
         | c # r \<Rightarrow>
             if c = of_char CHR ''+'' then strUnsignedDecimalLiteral False r
             else if c = of_char CHR ''-'' then strUnsignedDecimalLiteral True r
             else strUnsignedDecimalLiteral False trimmed)"

text \<open>
  \<^verbatim>\<open>input.split(/[\s,]+/)\<close>. The scan keeps the piece read since the last match in
  \<open>piece\<close>. A separator ends the piece, and the match takes the whole run of
  separators that starts there; the end of the string ends the last piece. So a
  string that starts or ends with a separator yields an empty first or last piece, and
  the empty string yields one empty piece.
\<close>

function split_from :: "jsstring \<Rightarrow> jsstring \<Rightarrow> jsstring list" where
  "split_from piece [] = [piece]"
| "split_from piece (c # cs) =
     (if isSeparator c then piece # split_from [] (dropWhile isSeparator cs)
      else split_from (piece @ [c]) cs)"
  by pat_completeness auto
termination
  by (relation "measure (\<lambda>(piece, cs). length cs)")
     (auto simp: length_dropWhile_le less_Suc_eq_le)

declare split_from.simps [simp del]

definition split :: "jsstring \<Rightarrow> jsstring list" where
  "split input = split_from [] input"

definition parseVectorString :: "jsstring \<Rightarrow> number list" where
  "parseVectorString input =
     filter (\<lambda>n. \<not> isNaN n) (map (\<lambda>s. parseFloat (trim s)) (split input))"

text \<open>The numbers \<^verbatim>\<open>map\<close> and \<^verbatim>\<open>filter\<close> keep from a list of pieces.\<close>

abbreviation (input) kept :: "jsstring list \<Rightarrow> number list" where
  "kept pieces \<equiv> filter (\<lambda>n. \<not> isNaN n) (map (\<lambda>s. parseFloat (trim s)) pieces)"

subsection \<open>The parser's contract, as the specification words it\<close>

text \<open>
  The tokens of an input: its maximal runs of characters that are neither white space
  nor commas, in order. Runs of separators lie between them and yield nothing.
\<close>

function tokens_spec :: "jsstring \<Rightarrow> jsstring list" where
  "tokens_spec [] = []"
| "tokens_spec (c # cs) =
     (if isSeparator c then tokens_spec cs
      else (c # takeWhile (\<lambda>d. \<not> isSeparator d) cs)
           # tokens_spec (dropWhile (\<lambda>d. \<not> isSeparator d) cs))"
  by pat_completeness auto
termination
  by (relation "measure length") (auto simp: length_dropWhile_le less_Suc_eq_le)

declare tokens_spec.simps [simp del]

text \<open>
  A token has a numeric prefix when, after an optional sign, it starts with
  \<^verbatim>\<open>Infinity\<close>, with a digit, or with a point and a digit.
\<close>

definition unsigned_part :: "jsstring \<Rightarrow> jsstring" where
  "unsigned_part t =
     (case t of
        [] \<Rightarrow> []
      | c # r \<Rightarrow> if c = of_char CHR ''+'' \<or> c = of_char CHR ''-'' then r else t)"

definition numeric_start :: "jsstring \<Rightarrow> bool" where
  "numeric_start t =
     (take 8 t = utf16 ''Infinity''
      \<or> (case t of
            [] \<Rightarrow> False
          | c # r \<Rightarrow>
              isDigit c
              \<or> (c = of_char CHR ''.'' \<and> (case r of [] \<Rightarrow> False | d # _ \<Rightarrow> isDigit d))))"

definition has_numeric_prefix :: "jsstring \<Rightarrow> bool" where
  "has_numeric_prefix t = numeric_start (unsigned_part (trimStart t))"

section \<open>The chart (src/components/VectorChart.tsx)\<close>

record point =
  X :: number
  Y :: number

subsection \<open>The 2D projector\<close>

text \<open>
  The constants of the 2D branch: \<^verbatim>\<open>size\<close>, \<^verbatim>\<open>center\<close>, \<^verbatim>\<open>maxVal\<close> and \<^verbatim>\<open>scale\<close>.
  The literal \<^verbatim>\<open>1.2\<close> denotes the binary64 value nearest to \<open>12 / 10\<close>.
\<close>

definition size2D :: number where
  "size2D = Num False 300"

definition center2D :: number where
  "center2D = fdiv size2D (Num False 2)"

definition maxVal2D :: "number list \<Rightarrow> number list \<Rightarrow> number" where
  "maxVal2D vecA vecB =
     fmul (Math_max [Math_abs (at_index vecA 0), Math_abs (at_index vecA 1),
                     Math_abs (at_index vecB 0), Math_abs (at_index vecB 1),
                     Num False 1])
          (round64 False (12 / 10))"

definition scale2D :: "number list \<Rightarrow> number list \<Rightarrow> number" where
  "scale2D vecA vecB = fdiv (fsub center2D (Num False 20)) (maxVal2D vecA vecB)"

definition getCoord :: "number list \<Rightarrow> number list \<Rightarrow> number \<Rightarrow> number \<Rightarrow> point" where
  "getCoord vecA vecB x y =
     \<lparr>X = fadd center2D (fmul x (scale2D vecA vecB)),
      Y = fsub center2D (fmul y (scale2D vecA vecB))\<rparr>"

subsection \<open>The rotation state of the 3D view\<close>

text \<open>
  The state of the component that the mouse handlers use: \<^verbatim>\<open>rotation\<close> (\<open>X\<close> is the
  pitch, \<open>Y\<close> the yaw), \<^verbatim>\<open>isDragging\<close> and the reference \<^verbatim>\<open>lastMousePos\<close>. A mouse
  event carries \<^verbatim>\<open>clientX\<close> and \<^verbatim>\<open>clientY\<close>; leaving the container runs the handler of
  releasing the button.
\<close>

record view_state =
  rotation :: point
  isDragging :: bool
  lastMousePos :: point

datatype mouse_event =
  MouseDown number number | MouseMove number number | MouseUp | MouseLeave

definition initial_view :: view_state where
  "initial_view =
     \<lparr>rotation = \<lparr>X = Num True 20, Y = Num False 45\<rparr>, isDragging = False,
      lastMousePos = \<lparr>X = Num False 0, Y = Num False 0\<rparr>\<rparr>"

definition handleMouseDown :: "number \<Rightarrow> number \<Rightarrow> view_state \<Rightarrow> view_state" where
  "handleMouseDown clientX clientY st =
     st\<lparr>isDragging := True, lastMousePos := \<lparr>X = clientX, Y = clientY\<rparr>\<rparr>"

definition handleMouseMove :: "number \<Rightarrow> number \<Rightarrow> view_state \<Rightarrow> view_state" where
  "handleMouseMove clientX clientY st =
     (if \<not> isDragging st then st
      else
        let deltaX = fsub clientX (X (lastMousePos st));
            deltaY = fsub clientY (Y (lastMousePos st));
            prev = rotation st
        in st\<lparr>rotation :=
                 \<lparr>X = Math_max [Num True 90,
                        Math_min [Num False 90, fadd (X prev) (fmul deltaY (Num False (1 / 2)))]],
                  Y = fadd (Y prev) (fmul deltaX (Num False (1 / 2)))\<rparr>,
               lastMousePos := \<lparr>X = clientX, Y = clientY\<rparr>\<rparr>)"

definition handleMouseUp :: "view_state \<Rightarrow> view_state" where
  "handleMouseUp st = st\<lparr>isDragging := False\<rparr>"

fun handle :: "view_state \<Rightarrow> mouse_event \<Rightarrow> view_state" where
  "handle st (MouseDown clientX clientY) = handleMouseDown clientX clientY st"
| "handle st (MouseMove clientX clientY) = handleMouseMove clientX clientY st"
| "handle st MouseUp = handleMouseUp st"
| "handle st MouseLeave = handleMouseUp st"

text \<open>
  The states the view reaches from its initial state, one event after the other. The
  coordinates of a mouse event are finite numbers (the DOM declares \<^verbatim>\<open>clientX\<close> and
  \<^verbatim>\<open>clientY\<close> with a type that has no \<open>NaN\<close> and no infinity).
\<close>

fun finite_coordinates :: "mouse_event \<Rightarrow> bool" where
  "finite_coordinates (MouseDown clientX clientY) = (isFinite clientX \<and> isFinite clientY)"
| "finite_coordinates (MouseMove clientX clientY) = (isFinite clientX \<and> isFinite clientY)"
| "finite_coordinates MouseUp = True"
| "finite_coordinates MouseLeave = True"

inductive reachable :: "view_state \<Rightarrow> bool" where
  initial: "reachable initial_view"
| event: "reachable st \<Longrightarrow> finite_coordinates ev \<Longrightarrow> reachable (handle st ev)"

text \<open>
  What every reachable state satisfies: the pitch is a finite number in \<open>[-90, 90]\<close>,
  and the last mouse position is finite.
\<close>

definition view_ok :: "view_state \<Rightarrow> bool" where
  "view_ok st =
     (isFinite (X (rotation st)) \<and> fle (Num True 90) (X (rotation st))
      \<and> fle (X (rotation st)) (Num False 90)
      \<and> isFinite (X (lastMousePos st)) \<and> isFinite (Y (lastMousePos st)))"


text \<open>
  Two drags from the initial state: one across the whole range of \<^verbatim>\<open>clientX\<close>, and a
  vertical one of 400 pixels.
\<close>

definition far_drag :: view_state where
  "far_drag =
     handle (handle initial_view (MouseDown (Num True (2 ^ 1023)) (Num False 0)))
       (MouseMove (Num False (2 ^ 1023)) (Num False 0))"


definition steep_drag :: view_state where
  "steep_drag =
     handle (handle initial_view (MouseDown (Num False 0) (Num False 0)))
       (MouseMove (Num False 0) (Num False 400))"


section \<open>The two functions over a store of arrays\<close>

text \<open>
  A second embedding of the two functions of src/utils/mathUtils.ts, with what the first
  leaves implicit: arrays are objects in a store, a function receives references to
  them, and every statement passes the store on. A cell holds an array of strings or an
  array of numbers; \<open>alloc\<close> puts a new array at the next free reference. Strings are
  immutable values and stay arguments.
\<close>

datatype cell = Strings "jsstring list" | Numbers "number list"

record store =
  cells :: "nat \<Rightarrow> cell"
  next_ref :: nat

definition alloc :: "cell \<Rightarrow> store \<Rightarrow> nat \<times> store" where
  "alloc c st =
     (next_ref st, st\<lparr>cells := (cells st)(next_ref st := c), next_ref := next_ref st + 1\<rparr>)"

definition numbers_at :: "store \<Rightarrow> nat \<Rightarrow> number list" where
  "numbers_at st r = (case cells st r of Numbers ns \<Rightarrow> ns | Strings _ \<Rightarrow> [])"

definition strings_at :: "store \<Rightarrow> nat \<Rightarrow> jsstring list" where
  "strings_at st r = (case cells st r of Strings ss \<Rightarrow> ss | Numbers _ \<Rightarrow> [])"

text \<open>
  \<^verbatim>\<open>parseVectorString\<close>: \<^verbatim>\<open>split\<close>, \<^verbatim>\<open>map\<close> and \<^verbatim>\<open>filter\<close> each read the array they are
  called on and return a new array.
\<close>

definition String_split :: "jsstring \<Rightarrow> store \<Rightarrow> nat \<times> store" where
  "String_split input st = alloc (Strings (split input)) st"

definition Array_map_parse :: "nat \<Rightarrow> store \<Rightarrow> nat \<times> store" where
  "Array_map_parse r st = alloc (Numbers (map (\<lambda>s. parseFloat (trim s)) (strings_at st r))) st"

definition Array_filter_valid :: "nat \<Rightarrow> store \<Rightarrow> nat \<times> store" where
  "Array_filter_valid r st = alloc (Numbers (filter (\<lambda>n. \<not> isNaN n) (numbers_at st r))) st"

definition parseVectorString_st :: "jsstring \<Rightarrow> store \<Rightarrow> nat \<times> store" where
  "parseVectorString_st input st =
     (let (pieces, st1) = String_split input st;
          (parsed, st2) = Array_map_parse pieces st1
      in Array_filter_valid parsed st2)"

text \<open>
  \<^verbatim>\<open>calculateCosineSimilarity\<close>: \<open>vecA\<close> and \<open>vecB\<close> are references; the loop reads
  \<^verbatim>\<open>vecA.length\<close>, \<^verbatim>\<open>vecA[i]\<close> and \<^verbatim>\<open>vecB[i]\<close> from the store at every iteration. The
  source has no assignment to an element or to a variable outside the function, so
  no statement changes the store.
\<close>

function sum_loop_st ::
  "nat \<Rightarrow> nat \<Rightarrow> nat \<Rightarrow> number \<times> number \<times> number \<Rightarrow> store
   \<Rightarrow> (number \<times> number \<times> number) \<times> store"
where
  "sum_loop_st vecA vecB i (dotProduct', sumSqA, sumSqB) st =
     (if i < length (numbers_at st vecA)
      then sum_loop_st vecA vecB (i + 1)
             (fadd dotProduct'
                (fmul (at_index (numbers_at st vecA) i) (at_index (numbers_at st vecB) i)),
              fadd sumSqA
                (fmul (at_index (numbers_at st vecA) i) (at_index (numbers_at st vecA) i)),
              fadd sumSqB
                (fmul (at_index (numbers_at st vecB) i) (at_index (numbers_at st vecB) i)))
             st
      else ((dotProduct', sumSqA, sumSqB), st))"
  by pat_completeness auto
termination
  by (relation "measure (\<lambda>(vecA, vecB, i, acc, st). length (numbers_at st vecA) - i)") auto

declare sum_loop_st.simps [simp del]

definition calculateCosineSimilarity_st ::
  "(real \<Rightarrow> number) \<Rightarrow> nat \<Rightarrow> nat \<Rightarrow> store \<Rightarrow> VectorResult option \<times> store"
where
  "calculateCosineSimilarity_st acos_impl vecA vecB st =
     (if length (numbers_at st vecA) = 0 \<or> length (numbers_at st vecB) = 0
         \<or> length (numbers_at st vecA) \<noteq> length (numbers_at st vecB)
      then (None, st)
      else
        let ((dotProduct', sumSqA, sumSqB), st1) =
              sum_loop_st vecA vecB 0 (Num False 0, Num False 0, Num False 0) st;
            magnitudeA' = Math_sqrt sumSqA;
            magnitudeB' = Math_sqrt sumSqB
        in if feq magnitudeA' (Num False 0) \<or> feq magnitudeB' (Num False 0)
           then (Some \<lparr>dotProduct = dotProduct', magnitudeA = magnitudeA',
                       magnitudeB = magnitudeB', cosineSimilarity = Num False 0,
                       angleDegrees = Num False 0,
                       dimensions = length (numbers_at st1 vecA)\<rparr>, st1)
           else
             let cosineSimilarity' = fdiv dotProduct' (fmul magnitudeA' magnitudeB');
                 clampedSimilarity =
                   Math_max [Num True 1, Math_min [Num False 1, cosineSimilarity']];
                 angleRadians = Math_acos acos_impl clampedSimilarity;
                 angleDegrees' = fmul angleRadians (fdiv (Num False 180) Math_PI)
             in (Some \<lparr>dotProduct = dotProduct', magnitudeA = magnitudeA',
                        magnitudeB = magnitudeB', cosineSimilarity = clampedSimilarity,
                        angleDegrees = angleDegrees',
                        dimensions = length (numbers_at st1 vecA)\<rparr>, st1))"

text \<open>
  Two stores that hold the same two vectors at different references, among other
  cells.
\<close>

definition store_a :: store where
  "store_a =
     \<lparr>cells = (\<lambda>r. Numbers [])(0 := Numbers [Num False 3, Num False 0],
                                 1 := Numbers [Num False 0, Num False 4]),
      next_ref = 2\<rparr>"

definition store_b :: store where
  "store_b =
     \<lparr>cells = (\<lambda>r. Strings [])(5 := Numbers [Num False 3, Num False 0],
                                 7 := Numbers [Num False 0, Num False 4],
                                 8 := Numbers [NaN]),
      next_ref = 9\<rparr>"


section \<open>The two functions with exceptions as values\<close>

text \<open>
  A third embedding of the two functions, for what can go wrong at run time. TypeScript's
  types are erased when the program runs, and unless null checks are strict they admit
  \<^verbatim>\<open>undefined\<close> and \<^verbatim>\<open>null\<close> wherever a string, an array or a number is declared. An
  argument, and an element of an array argument, is therefore \<^verbatim>\<open>undefined\<close>, \<^verbatim>\<open>null\<close> or
  a value of the declared type. Every operation returns a completion: \<open>Inr\<close> with its
  value when it completes normally, \<open>Inl\<close> with the exception it throws otherwise, and
  an exception ends the function that called the operation.
\<close>

datatype 'a nullable = Undefined | Null | Val 'a

datatype exception = TypeError

text \<open>
  Reading a property or calling a method of \<^verbatim>\<open>undefined\<close> or \<^verbatim>\<open>null\<close> throws a
  \<^verbatim>\<open>TypeError\<close>: \<^verbatim>\<open>vec.length\<close>, \<^verbatim>\<open>vec[i]\<close> and \<^verbatim>\<open>input.split(...)\<close>. An index beyond the
  end of an array reads \<^verbatim>\<open>undefined\<close>. The arithmetic operators convert an operand to
  a number first: \<^verbatim>\<open>undefined\<close> to \<open>NaN\<close> and \<^verbatim>\<open>null\<close> to \<open>+0\<close>.
\<close>

definition get_length :: "'a list nullable \<Rightarrow> exception + nat" where
  "get_length vec = (case vec of Val xs \<Rightarrow> Inr (length xs) | _ \<Rightarrow> Inl TypeError)"

definition get_element :: "'a nullable list nullable \<Rightarrow> nat \<Rightarrow> exception + 'a nullable" where
  "get_element vec i =
     (case vec of
        Val xs \<Rightarrow> Inr (if i < length xs then xs ! i else Undefined)
      | _ \<Rightarrow> Inl TypeError)"

fun ToNumber :: "number nullable \<Rightarrow> number" where
  "ToNumber Undefined = NaN"
| "ToNumber Null = Num False 0"
| "ToNumber (Val n) = n"

definition String_split_ex :: "jsstring nullable \<Rightarrow> exception + jsstring list" where
  "String_split_ex input = (case input of Val s \<Rightarrow> Inr (split s) | _ \<Rightarrow> Inl TypeError)"

text \<open>
  \<^verbatim>\<open>map\<close> and \<^verbatim>\<open>filter\<close> call their callback on the elements in order; an exception
  thrown by the callback ends the traversal and is the completion of the call.
\<close>

fun Array_map_ex :: "('a \<Rightarrow> exception + 'b) \<Rightarrow> 'a list \<Rightarrow> exception + 'b list" where
  "Array_map_ex f [] = Inr []"
| "Array_map_ex f (x # xs) =
     (case f x of
        Inl e \<Rightarrow> Inl e
      | Inr y \<Rightarrow> (case Array_map_ex f xs of Inl e \<Rightarrow> Inl e | Inr ys \<Rightarrow> Inr (y # ys)))"

fun Array_filter_ex :: "('a \<Rightarrow> exception + bool) \<Rightarrow> 'a list \<Rightarrow> exception + 'a list" where
  "Array_filter_ex f [] = Inr []"
| "Array_filter_ex f (x # xs) =
     (case f x of
        Inl e \<Rightarrow> Inl e
      | Inr keep \<Rightarrow>
          (case Array_filter_ex f xs of
             Inl e \<Rightarrow> Inl e
           | Inr ys \<Rightarrow> Inr (if keep then x # ys else ys)))"

text \<open>
  \<^verbatim>\<open>parseVectorString\<close>. The pieces that \<^verbatim>\<open>split\<close> returns are strings, on which
  \<^verbatim>\<open>trim\<close> and \<^verbatim>\<open>parseFloat\<close> complete normally, as \<^verbatim>\<open>isNaN\<close> does on a number.
\<close>

definition parseVectorString_ex :: "jsstring nullable \<Rightarrow> exception + number list" where
  "parseVectorString_ex input =
     (case String_split_ex input of
        Inl e \<Rightarrow> Inl e
      | Inr pieces \<Rightarrow>
          (case Array_map_ex (\<lambda>s. Inr (parseFloat (trim s))) pieces of
             Inl e \<Rightarrow> Inl e
           | Inr parsed \<Rightarrow> Array_filter_ex (\<lambda>n. Inr (\<not> isNaN n)) parsed))"

text \<open>
  \<^verbatim>\<open>calculateCosineSimilarity\<close>. The loop reads \<^verbatim>\<open>vecA.length\<close>, \<^verbatim>\<open>vecA[i]\<close> and
  \<^verbatim>\<open>vecB[i]\<close> at every iteration. In the first test \<^verbatim>\<open>||\<close> evaluates its right operand
  only when the left one is false, so \<^verbatim>\<open>vecB.length\<close> is read only when \<^verbatim>\<open>vecA\<close> is not
  empty.
\<close>

function sum_loop_ex ::
  "number nullable list nullable \<Rightarrow> number nullable list nullable \<Rightarrow> nat
   \<Rightarrow> number \<times> number \<times> number \<Rightarrow> exception + number \<times> number \<times> number"
where
  "sum_loop_ex vecA vecB i (dotProduct', sumSqA, sumSqB) =
     (case get_length vecA of
        Inl e \<Rightarrow> Inl e
      | Inr lengthA \<Rightarrow>
          if i < lengthA
          then (case get_element vecA i of
                  Inl e \<Rightarrow> Inl e
                | Inr a \<Rightarrow>
                    (case get_element vecB i of
                       Inl e \<Rightarrow> Inl e
                     | Inr b \<Rightarrow>
                         sum_loop_ex vecA vecB (i + 1)
                           (fadd dotProduct' (fmul (ToNumber a) (ToNumber b)),
                            fadd sumSqA (fmul (ToNumber a) (ToNumber a)),
                            fadd sumSqB (fmul (ToNumber b) (ToNumber b)))))
          else Inr (dotProduct', sumSqA, sumSqB))"
  by pat_completeness auto
termination
  by (relation "measure (\<lambda>(vecA, vecB, i, acc). (case vecA of Val xs \<Rightarrow> length xs | _ \<Rightarrow> 0) - i)")
     (auto simp: get_length_def split: nullable.splits)

declare sum_loop_ex.simps [simp del]

definition calculateCosineSimilarity_ex ::
  "(real \<Rightarrow> number) \<Rightarrow> number nullable list nullable \<Rightarrow> number nullable list nullable
   \<Rightarrow> exception + VectorResult option"
where
  "calculateCosineSimilarity_ex acos_impl vecA vecB =
     (case get_length vecA of
        Inl e \<Rightarrow> Inl e
      | Inr lengthA \<Rightarrow>
          if lengthA = 0 then Inr None
          else
            (case get_length vecB of
               Inl e \<Rightarrow> Inl e
             | Inr lengthB \<Rightarrow>
                 if lengthB = 0 \<or> lengthA \<noteq> lengthB then Inr None
                 else
                   (case sum_loop_ex vecA vecB 0 (Num False 0, Num False 0, Num False 0) of
                      Inl e \<Rightarrow> Inl e
                    | Inr (dotProduct', sumSqA, sumSqB) \<Rightarrow>
                        let magnitudeA' = Math_sqrt sumSqA;
                            magnitudeB' = Math_sqrt sumSqB
                        in if feq magnitudeA' (Num False 0) \<or> feq magnitudeB' (Num False 0)
                           then Inr (Some \<lparr>dotProduct = dotProduct', magnitudeA = magnitudeA',
                                     magnitudeB = magnitudeB', cosineSimilarity = Num False 0,
                                     angleDegrees = Num False 0, dimensions = lengthA\<rparr>)
                           else
                             let cosineSimilarity' =
                                   fdiv dotProduct' (fmul magnitudeA' magnitudeB');
                                 clampedSimilarity =
                                   Math_max [Num True 1, Math_min [Num False 1, cosineSimilarity']];
                                 angleRadians = Math_acos acos_impl clampedSimilarity;
                                 angleDegrees' = fmul angleRadians (fdiv (Num False 180) Math_PI)
                             in Inr (Some \<lparr>dotProduct = dotProduct', magnitudeA = magnitudeA',
                                       magnitudeB = magnitudeB',
                                       cosineSimilarity = clampedSimilarity,
                                       angleDegrees = angleDegrees', dimensions = lengthA\<rparr>))))"


section \<open>Properties of rounding\<close>

subsection \<open>The binary exponent\<close>

lemma pow2_le_of_int:
  "(2::int) ^ n \<le> m \<Longrightarrow> (2::real) ^ n \<le> of_int m"
  by (metis of_int_le_iff of_int_numeral of_int_power)

lemma of_int_less_pow2:
  "m < (2::int) ^ n \<Longrightarrow> of_int m < (2::real) ^ n"
  by (metis of_int_less_iff of_int_numeral of_int_power)

lemma powi_neg: "0 \<le> b \<Longrightarrow> (2::real) powi (- b) = 1 / 2 ^ nat b"
  by (cases "b = 0") (simp_all add: power_int_def field_simps)

lemma ilog2_lower:
  assumes "0 < x"
  shows "2 powi ilog2 x \<le> x"
proof (cases "1 \<le> x")
  case True
  then have n: "0 < \<lfloor>x\<rfloor>" by linarith
  have "(2::real) ^ nat (bitlen \<lfloor>x\<rfloor> - 1) \<le> of_int \<lfloor>x\<rfloor>"
    using bitlen_bounds[OF n] by (intro pow2_le_of_int) simp
  also have "\<dots> \<le> x" by simp
  finally have "(2::real) ^ nat (bitlen \<lfloor>x\<rfloor> - 1) \<le> x" .
  moreover have "1 \<le> bitlen \<lfloor>x\<rfloor>" using n by (simp add: bitlen_alt_def)
  ultimately show ?thesis using True
    by (simp add: ilog2_def power_int_def)
next
  case False
  define c where "c = \<lceil>1 / x\<rceil> - 1"
  define b where "b = bitlen c"
  have y: "1 < 1 / x" using False assms by simp
  then have c: "0 < c" unfolding c_def by linarith
  have "of_int (c + 1) < (2::real) ^ nat b + 1"
    using bitlen_bounds[OF c] of_int_less_pow2[of c "nat b"] by (simp add: b_def)
  then have "c + 1 \<le> 2 ^ nat b"
    by (smt (verit, best) bitlen_bounds c b_def)
  then have "of_int (c + 1) \<le> (2::real) ^ nat b"
    by (metis of_int_le_iff of_int_numeral of_int_power)
  moreover have "1 / x \<le> of_int (c + 1)" unfolding c_def by simp
  ultimately have "1 / x \<le> 2 ^ nat b" by linarith
  then have "1 / 2 ^ nat b \<le> x" using assms
    by (simp add: field_simps)
  moreover have "0 \<le> b" by (simp add: b_def bitlen_nonneg)
  moreover have "ilog2 x = - b" using False by (simp add: ilog2_def b_def c_def)
  ultimately show ?thesis by (simp add: powi_neg)
qed

lemma ilog2_upper:
  assumes "0 < x"
  shows "x < 2 powi (ilog2 x + 1)"
proof (cases "1 \<le> x")
  case True
  then have n: "0 < \<lfloor>x\<rfloor>" by linarith
  have b1: "1 \<le> bitlen \<lfloor>x\<rfloor>" using n by (simp add: bitlen_alt_def)
  have "\<lfloor>x\<rfloor> + 1 \<le> 2 ^ nat (bitlen \<lfloor>x\<rfloor>)" using bitlen_bounds[OF n] by simp
  then have "of_int (\<lfloor>x\<rfloor> + 1) \<le> (2::real) ^ nat (bitlen \<lfloor>x\<rfloor>)"
    by (metis of_int_le_iff of_int_numeral of_int_power)
  moreover have "x < of_int (\<lfloor>x\<rfloor> + 1)" by linarith
  ultimately have "x < 2 ^ nat (bitlen \<lfloor>x\<rfloor>)" by linarith
  then show ?thesis using True b1
    by (simp add: ilog2_def power_int_def)
next
  case False
  define c where "c = \<lceil>1 / x\<rceil> - 1"
  define b where "b = bitlen c"
  have y: "1 < 1 / x" using False assms by simp
  then have c: "0 < c" unfolding c_def by linarith
  have b1: "1 \<le> b" using c by (simp add: b_def bitlen_alt_def)
  have "(2::real) ^ nat (b - 1) \<le> of_int c"
    using bitlen_bounds[OF c] by (intro pow2_le_of_int) (simp add: b_def)
  moreover have "of_int c < 1 / x" unfolding c_def by linarith
  ultimately have "2 ^ nat (b - 1) < 1 / x" by linarith
  then have "x < 1 / 2 ^ nat (b - 1)" using assms
    by (simp add: field_simps)
  moreover have "ilog2 x + 1 = - (b - 1)" using False by (simp add: ilog2_def b_def c_def)
  moreover have "(2::real) powi (- (b - 1)) = 1 / 2 ^ nat (b - 1)"
    using b1 by (intro powi_neg) simp
  ultimately show ?thesis by simp
qed

lemma powi_mono: "(k::int) \<le> l \<Longrightarrow> (2::real) powi k \<le> 2 powi l"
  by (rule power_int_increasing) auto

lemma powi_strict_mono: "(k::int) < l \<Longrightarrow> (2::real) powi k < 2 powi l"
  by (rule power_int_strict_increasing) auto

lemma ilog2_unique:
  assumes "2 powi k \<le> x" "x < 2 powi (k + 1)"
  shows "ilog2 x = k"
proof -
  have x: "0 < x" using assms(1) by (smt (verit) zero_less_power_int)
  have "\<not> ilog2 x < k"
  proof
    assume "ilog2 x < k"
    then have "2 powi (ilog2 x + 1) \<le> (2::real) powi k" by (intro powi_mono) simp
    with ilog2_upper[OF x] assms(1) show False by linarith
  qed
  moreover have "\<not> k < ilog2 x"
  proof
    assume "k < ilog2 x"
    then have "2 powi (k + 1) \<le> (2::real) powi ilog2 x" by (intro powi_mono) simp
    with ilog2_lower[OF x] assms(2) show False by linarith
  qed
  ultimately show ?thesis by linarith
qed

lemma ilog2_mono: "0 < x \<Longrightarrow> x \<le> y \<Longrightarrow> ilog2 x \<le> ilog2 y"
proof (rule ccontr)
  assume a: "0 < x" "x \<le> y" "\<not> ilog2 x \<le> ilog2 y"
  then have "2 powi (ilog2 y + 1) \<le> (2::real) powi ilog2 x" by (intro powi_mono) simp
  with ilog2_lower[of x] ilog2_upper[of y] a show False by linarith
qed

subsection \<open>Rounding between representable values\<close>

lemma rhe_of_int: "round_half_even (of_int m) = m"
  by (simp add: round_half_even_def)

lemma rhe_ge: "of_int m \<le> r \<Longrightarrow> m \<le> round_half_even r"
proof -
  assume "of_int m \<le> r"
  then have "m \<le> \<lfloor>r\<rfloor>" by (simp add: le_floor_iff)
  then show ?thesis by (simp add: round_half_even_def Let_def)
qed

lemma rhe_le: "r \<le> of_int m \<Longrightarrow> round_half_even r \<le> m"
proof (cases "r = of_int m")
  case True
  then show ?thesis by (simp add: rhe_of_int)
next
  case False
  assume "r \<le> of_int m"
  with False have "r < of_int m" by simp
  then have "\<lfloor>r\<rfloor> < m" by (simp add: floor_less_iff)
  then show ?thesis by (simp add: round_half_even_def Let_def)
qed

lemma powi_split: "(2::real) powi (a + b) = 2 powi a * 2 powi b"
  by (simp add: power_int_add)

lemma powi_nonneg_int: "0 \<le> k \<Longrightarrow> (2::real) powi k = of_int (2 ^ nat k)"
  by (simp add: power_int_def)

lemma quantum_pos: "0 < quantum x"
  by (simp add: quantum_def)

text \<open>
  A magnitude \<open>m * 2 powi e\<close> with a 53-bit \<open>m\<close> either lies on the grid of multiples of
  the quantum of \<open>x\<close>, or is smaller than the power of two at or below \<open>x\<close>.
\<close>

lemma grid_cases:
  fixes m e :: int and x :: real
  assumes x: "0 < x" and m: "0 \<le> m" "m < 2 ^ 53" and e: "- 1074 \<le> e"
  defines "a \<equiv> of_int m * 2 powi e"
  shows "(\<exists>n. a / quantum x = of_int n) \<or> a < 2 powi ilog2 x \<and> quantum x = 2 powi (ilog2 x - 52)"
proof -
  define E where "E = max (ilog2 x - 52) (- 1074)"
  have q: "quantum x = 2 powi E" by (simp add: quantum_def E_def)
  show ?thesis
  proof (cases "E \<le> e")
    case True
    have "a / quantum x = of_int m * (2 powi e / 2 powi E)" by (simp add: a_def q)
    also have "2 powi e / (2::real) powi E = 2 powi (e - E)" by (simp add: power_int_diff)
    also have "\<dots> = of_int (2 ^ nat (e - E))" using True by (intro powi_nonneg_int) simp
    finally have "a / quantum x = of_int (m * 2 ^ nat (e - E))" by simp
    then show ?thesis by blast
  next
    case False
    then have E: "E = ilog2 x - 52" and eE: "e + 53 \<le> ilog2 x" using e by (auto simp: E_def)
    have "a < 2 ^ 53 * 2 powi e"
      unfolding a_def using of_int_less_pow2[OF m(2)] by (intro mult_strict_right_mono) auto
    also have "\<dots> = 2 powi (e + 53)" by (simp add: power_int_add)
    also have "\<dots> \<le> 2 powi ilog2 x" using eE by (rule powi_mono)
    finally show ?thesis using q E by simp
  qed
qed

lemma scaled_ge_52:
  assumes "0 < x" "quantum x = 2 powi (ilog2 x - 52)"
  shows "of_int (2 ^ 52) \<le> x / quantum x"
proof -
  have "2 powi ilog2 x / quantum x = (2::real) powi 52"
    by (simp add: assms(2) power_int_diff)
  moreover have "2 powi ilog2 x / quantum x \<le> x / quantum x"
    using ilog2_lower[OF assms(1)] quantum_pos[of x] by (simp add: divide_right_mono)
  ultimately show ?thesis by simp
qed

lemma round_grid_lower:
  fixes m e :: int and x :: real
  assumes x: "0 < x" and m: "0 \<le> m" "m < 2 ^ 53" and e: "- 1074 \<le> e"
    and le: "of_int m * 2 powi e \<le> x"
  shows "of_int m * 2 powi e \<le> of_int (round_half_even (x / quantum x)) * quantum x"
proof -
  let ?a = "of_int m * (2::real) powi e" and ?q = "quantum x"
  from grid_cases[OF x m e]
  consider n where "?a / ?q = of_int n" | "?a < 2 powi ilog2 x" "?q = 2 powi (ilog2 x - 52)"
    by blast
  then show ?thesis
  proof cases
    case 1
    have "?a / ?q \<le> x / ?q" using le quantum_pos[of x] by (simp add: divide_right_mono)
    then have "n \<le> round_half_even (x / ?q)" using 1 by (intro rhe_ge) simp
    then have "of_int n * ?q \<le> of_int (round_half_even (x / ?q)) * ?q"
      using quantum_pos[of x] by (simp add: mult_right_mono)
    moreover have "of_int n * ?q = ?a" using 1 quantum_pos[of x] by (simp add: field_simps)
    ultimately show ?thesis by simp
  next
    case 2
    have "2 ^ 52 \<le> round_half_even (x / ?q)"
      using scaled_ge_52[OF x 2(2)] by (rule rhe_ge)
    then have "of_int (2 ^ 52) * ?q \<le> of_int (round_half_even (x / ?q)) * ?q"
      using quantum_pos[of x] by (intro mult_right_mono) (simp_all del: of_int_power)
    moreover have "of_int (2 ^ 52) * ?q = 2 powi ilog2 x"
      by (simp add: 2(2) power_int_diff)
    ultimately show ?thesis using 2(1) by linarith
  qed
qed

lemma round_grid_upper:
  fixes m e :: int and x :: real
  assumes x: "0 < x" and m: "0 \<le> m" "m < 2 ^ 53" and e: "- 1074 \<le> e"
    and le: "x \<le> of_int m * 2 powi e"
  shows "of_int (round_half_even (x / quantum x)) * quantum x \<le> of_int m * 2 powi e"
proof -
  let ?a = "of_int m * (2::real) powi e" and ?q = "quantum x"
  from grid_cases[OF x m e]
  consider n where "?a / ?q = of_int n" | "?a < 2 powi ilog2 x" "?q = 2 powi (ilog2 x - 52)"
    by blast
  then show ?thesis
  proof cases
    case 1
    have "x / ?q \<le> ?a / ?q" using le quantum_pos[of x] by (simp add: divide_right_mono)
    then have "round_half_even (x / ?q) \<le> n" using 1 by (intro rhe_le) simp
    then have "of_int (round_half_even (x / ?q)) * ?q \<le> of_int n * ?q"
      using quantum_pos[of x] by (simp add: mult_right_mono)
    moreover have "of_int n * ?q = ?a" using 1 quantum_pos[of x] by (simp add: field_simps)
    ultimately show ?thesis by simp
  next
    case 2
    with ilog2_lower[OF x] le show ?thesis by linarith
  qed
qed

lemma round64_eval:
  assumes "2 powi k \<le> x" "x < 2 powi (k + 1)"
    and "round_half_even (x / 2 powi max (k - 52) (- 1074)) = m"
    and "y = of_int m * 2 powi max (k - 52) (- 1074)"
    and "y < 2 ^ 1024"
  shows "round64 s x = Num s y"
proof -
  have x: "0 < x" using assms(1) by (smt (verit) zero_less_power_int)
  have "ilog2 x = k" using assms(1,2) by (rule ilog2_unique)
  then show ?thesis using x assms(3,4,5)
    by (simp add: round64_def quantum_def Let_def)
qed

lemma round64_exact:
  assumes m: "0 \<le> m" "m < 2 ^ 53" and e: "- 1074 \<le> e"
    and fin: "of_int m * 2 powi e < (2::real) ^ 1024"
  shows "round64 s (of_int m * 2 powi e) = Num s (of_int m * 2 powi e)"
proof (cases "m = 0")
  case True
  then show ?thesis by (simp add: round64_def)
next
  case False
  let ?a = "of_int m * (2::real) powi e"
  have a: "0 < ?a" using False m(1) by simp
  have "of_int (round_half_even (?a / quantum ?a)) * quantum ?a = ?a"
    using round_grid_lower[OF a m e order_refl] round_grid_upper[OF a m e order_refl]
    by linarith
  then show ?thesis using a fin by (simp add: round64_def Let_def)
qed

lemma round64_not_NaN: "round64 s x \<noteq> NaN"
  by (simp add: round64_def Let_def)

lemma round64_lower:
  assumes m: "0 \<le> m" "m < 2 ^ 53" and e: "- 1074 \<le> e"
    and le: "of_int m * 2 powi e \<le> x" and x: "0 < x"
  shows "round64 s x = Infty s \<or> (\<exists>y. round64 s x = Num s y \<and> of_int m * 2 powi e \<le> y)"
  using round_grid_lower[OF x m e le] x by (simp add: round64_def Let_def)

lemma round64_upper:
  assumes m: "0 \<le> m" "m < 2 ^ 53" and e: "- 1074 \<le> e"
    and fin: "of_int m * 2 powi e < (2::real) ^ 1024"
    and le: "x \<le> of_int m * 2 powi e" and x: "0 \<le> x"
  shows "\<exists>y. round64 s x = Num s y \<and> y \<le> of_int m * 2 powi e"
proof (cases "x = 0")
  case True
  then show ?thesis using m(1) by (simp add: round64_def)
next
  case False
  then have "0 < x" using x by simp
  from round_grid_upper[OF this m e le] fin False show ?thesis
    by (simp add: round64_def Let_def)
qed

lemma round64_nonneg:
  assumes "0 \<le> x" "round64 s x = Num t y"
  shows "t = s \<and> 0 \<le> y"
proof (cases "x = 0")
  case True
  then show ?thesis using assms by (simp add: round64_def)
next
  case False
  then have x: "0 < x" using assms by simp
  have "0 \<le> round_half_even (x / quantum x)"
    using x quantum_pos[of x] by (intro rhe_ge) simp
  then have "0 \<le> of_int (round_half_even (x / quantum x)) * quantum x"
    using quantum_pos[of x] by simp
  then show ?thesis using assms False
    by (auto simp: round64_def Let_def split: if_splits)
qed


lemma round64_zero: "round64 s 0 = Num s 0"
  by (simp add: round64_def)

lemma round64_numeral:
  assumes "(numeral k :: int) < 2 ^ 53"
  shows "round64 s (numeral k) = Num s (numeral k)"
proof -
  have "(of_int (numeral k) :: real) < 2 ^ 53" using assms by (rule of_int_less_pow2)
  also have "(2::real) ^ 53 \<le> 2 ^ 1024" by simp
  finally have fin: "of_int (numeral k) * 2 powi 0 < (2::real) ^ 1024" by simp
  have "round64 s (of_int (numeral k) * 2 powi 0) = Num s (of_int (numeral k) * 2 powi 0)"
    by (rule round64_exact[OF _ assms _ fin]) simp_all
  then show ?thesis by simp
qed

lemma round64_one: "round64 s 1 = Num s 1"
  using round64_exact[of 1 0 s] by simp

lemma round64_overflow:
  assumes "2 ^ 1024 \<le> x"
  shows "round64 s x = Infty s"
proof -
  have x: "0 < x" using assms by (smt (verit) zero_less_power)
  have "of_int (2 ^ 52) * 2 powi 972 \<le> x" using assms by (simp add: power_int_def)
  from round_grid_lower[OF x _ _ _ this]
  have "2 ^ 1024 \<le> of_int (round_half_even (x / quantum x)) * quantum x"
    by (simp add: power_int_def)
  then show ?thesis using x by (simp add: round64_def Let_def)
qed

lemma rhe_nearest:
  assumes "of_int m - 1 / 2 < r" "r < of_int m + 1 / 2"
  shows "round_half_even r = m"
proof -
  have "\<lfloor>r\<rfloor> = m \<or> \<lfloor>r\<rfloor> = m - 1" using assms by linarith
  then show ?thesis
  proof
    assume "\<lfloor>r\<rfloor> = m"
    then show ?thesis using assms by (simp add: round_half_even_def Let_def)
  next
    assume "\<lfloor>r\<rfloor> = m - 1"
    then show ?thesis using assms by (simp add: round_half_even_def Let_def)
  qed
qed


lemma round64_underflow:
  assumes "0 \<le> x" "x < 2 powi (- 1075)"
  shows "round64 s x = Num s 0"
proof (cases "x = 0")
  case True
  then show ?thesis by (simp add: round64_def)
next
  case False
  then have x: "0 < x" using assms(1) by simp
  have "2 powi ilog2 x < (2::real) powi (- 1075)"
    using ilog2_lower[OF x] assms(2) by linarith
  then have "ilog2 x < - 1075"
    by (smt (verit) powi_mono)
  then have q: "quantum x = 2 powi (- 1074)" by (simp add: quantum_def max_def)
  have "x / quantum x < 2 powi (- 1075) / 2 powi (- 1074)"
    unfolding q using assms(2) by (intro divide_strict_right_mono) simp_all
  also have "\<dots> = 1 / 2" by (simp add: power_int_minus field_simps)
  finally have "x / quantum x < of_int 0 + 1 / 2" by simp
  moreover have "of_int 0 - 1 / 2 < x / quantum x"
    using x quantum_pos[of x] by (smt (verit) divide_pos_pos of_int_0)
  ultimately have "round_half_even (x / quantum x) = 0" by (rule rhe_nearest[rotated])
  then show ?thesis using False by (simp add: round64_def Let_def)
qed


subsection \<open>The value of \<open>pi\<close> to binary64 precision\<close>

text \<open>
  Partial sums of the alternating series of \<open>arctan\<close> enclose its value; with
  Euler's identity \<open>pi / 4 = 5 * arctan (1 / 7) + 2 * arctan (3 / 79)\<close> they place \<open>pi\<close>
  strictly between the two midpoints around \<^verbatim>\<open>Math.PI\<close>.
\<close>

lemma arctan_partial_sums:
  assumes "0 < x" "x \<le> 1"
  shows "(\<Sum>i<2 * n. (- 1) ^ i * (1 / real (i * 2 + 1) * x ^ (i * 2 + 1))) \<le> arctan x"
    and "arctan x \<le> (\<Sum>i<2 * n + 1. (- 1) ^ i * (1 / real (i * 2 + 1) * x ^ (i * 2 + 1)))"
proof -
  have ax: "\<bar>x\<bar> \<le> 1" using assms by simp
  let ?a = "\<lambda>n. 1 / real (n * 2 + 1) * x ^ (n * 2 + 1)"
  have "0 < ?a 0" using assms by simp
  with summable_Leibniz(2)[OF zeroseq_arctan_series[OF ax] monoseq_arctan_series[OF ax]]
  have "(\<Sum>i. (- 1) ^ i * ?a i) \<in> {\<Sum>i<2 * n. (- 1) ^ i * ?a i .. \<Sum>i<2 * n + 1. (- 1) ^ i * ?a i}"
    by blast
  then show "(\<Sum>i<2 * n. (- 1) ^ i * ?a i) \<le> arctan x"
    and "arctan x \<le> (\<Sum>i<2 * n + 1. (- 1) ^ i * ?a i)"
    using arctan_series[OF ax] by simp_all
qed

lemma pi_upper: "pi < 14148475504056881 / 2 ^ 52"
proof -
  have a: "arctan (1 / 7) \<le> (\<Sum>i<2 * 5 + 1. (- 1) ^ i * (1 / real (i * 2 + 1) * (1 / 7) ^ (i * 2 + 1)))"
    by (rule arctan_partial_sums(2)) simp_all
  have b: "arctan (3 / 79) \<le> (\<Sum>i<2 * 3 + 1. (- 1) ^ i * (1 / real (i * 2 + 1) * (3 / 79) ^ (i * 2 + 1)))"
    by (rule arctan_partial_sums(2)) simp_all
  have "pi = 20 * arctan (1 / 7) + 8 * arctan (3 / 79)"
    using machin_Euler by simp
  also have "\<dots> \<le> 20 * (\<Sum>i<2 * 5 + 1. (- 1) ^ i * (1 / real (i * 2 + 1) * (1 / 7) ^ (i * 2 + 1)))
      + 8 * (\<Sum>i<2 * 3 + 1. (- 1) ^ i * (1 / real (i * 2 + 1) * (3 / 79) ^ (i * 2 + 1)))"
    using a b by linarith
  also have "\<dots> < 14148475504056881 / 2 ^ 52"
    by (simp add: lessThan_nat_numeral power_divide)
  finally show ?thesis .
qed

lemma pi_lower: "14148475504056879 / 2 ^ 52 < pi"
proof -
  have a: "(\<Sum>i<2 * 5. (- 1) ^ i * (1 / real (i * 2 + 1) * (1 / 7) ^ (i * 2 + 1))) \<le> arctan (1 / 7)"
    by (rule arctan_partial_sums(1)) simp_all
  have b: "(\<Sum>i<2 * 3. (- 1) ^ i * (1 / real (i * 2 + 1) * (3 / 79) ^ (i * 2 + 1))) \<le> arctan (3 / 79)"
    by (rule arctan_partial_sums(1)) simp_all
  have "14148475504056879 / 2 ^ 52 < 20 * (\<Sum>i<2 * 5. (- 1) ^ i * (1 / real (i * 2 + 1) * (1 / 7) ^ (i * 2 + 1)))
      + 8 * (\<Sum>i<2 * 3. (- 1) ^ i * (1 / real (i * 2 + 1) * (3 / 79) ^ (i * 2 + 1)))"
    by (simp add: lessThan_nat_numeral power_divide)
  also have "\<dots> \<le> 20 * arctan (1 / 7) + 8 * arctan (3 / 79)"
    using a b by linarith
  also have "\<dots> = pi"
    using machin_Euler by simp
  finally show ?thesis .
qed

lemma round64_half_pi: "round64 False (pi / 2) = Num False (884279719003555 / 2 ^ 49)"
proof (rule round64_eval[where k = 0 and m = 7074237752028440])
  show "2 powi 0 \<le> pi / 2" using pi_ge_two by simp
  show "pi / 2 < 2 powi (0 + 1)" using pi_less_4 by simp
  show "round_half_even (pi / 2 / 2 powi max (0 - 52) (- 1074)) = 7074237752028440"
    using pi_lower pi_upper by (intro rhe_nearest) (simp_all add: field_simps)
qed simp_all

lemma acos_rounded_zero: "acos_rounded 0 = Num False (884279719003555 / 2 ^ 49)"
  by (simp add: acos_rounded_def round64_half_pi)

lemma degrees_per_radian:
  "fdiv (Num False 180) Math_PI = Num False (1007958012753983 / 2 ^ 44)"
  unfolding Math_PI_def fdiv.simps
  by (simp, rule round64_eval[where k = 5 and m = 8063664102031864])
     (simp_all add: round_half_even_def Let_def)

lemma degrees_right_angle:
  "degrees_spec (Num False (884279719003555 / 2 ^ 49)) = Num False 90"
  unfolding degrees_spec_def degrees_per_radian fmul.simps
  by (simp, rule round64_eval[where k = 6 and m = 6333186975989760])
     (simp_all add: round_half_even_def Let_def)

section \<open>The calculator computes its contract\<close>

text \<open>
  The loop leaves in its accumulators the three sums of the specification: by
  induction on the number of iterations left, for any starting index and accumulators.
\<close>

lemma sum_loop_folds:
  assumes "length vecA = length vecB" "i \<le> length vecA"
  shows "sum_loop vecA vecB i (d, sa, sb) =
     (foldl fadd d (map2 fmul (drop i vecA) (drop i vecB)),
      foldl fadd sa (map (\<lambda>a. fmul a a) (drop i vecA)),
      foldl fadd sb (map (\<lambda>b. fmul b b) (drop i vecB)))"
  using assms(2)
proof (induction "length vecA - i" arbitrary: i d sa sb)
  case 0
  then show ?case using assms(1) by (subst sum_loop.simps) simp
next
  case (Suc n)
  then have iA: "i < length vecA" and iB: "i < length vecB" using assms(1) by simp_all
  have dA: "drop i vecA = vecA ! i # drop (Suc i) vecA"
    using iA by (simp add: Cons_nth_drop_Suc)
  have dB: "drop i vecB = vecB ! i # drop (Suc i) vecB"
    using iB by (simp add: Cons_nth_drop_Suc)
  have "sum_loop vecA vecB i (d, sa, sb) =
      sum_loop vecA vecB (Suc i)
        (fadd d (fmul (vecA ! i) (vecB ! i)), fadd sa (fmul (vecA ! i) (vecA ! i)),
         fadd sb (fmul (vecB ! i) (vecB ! i)))"
    using iA iB by (subst sum_loop.simps) (simp add: at_index_def)
  also have "\<dots> =
     (foldl fadd (fadd d (fmul (vecA ! i) (vecB ! i)))
        (map2 fmul (drop (Suc i) vecA) (drop (Suc i) vecB)),
      foldl fadd (fadd sa (fmul (vecA ! i) (vecA ! i))) (map (\<lambda>a. fmul a a) (drop (Suc i) vecA)),
      foldl fadd (fadd sb (fmul (vecB ! i) (vecB ! i))) (map (\<lambda>b. fmul b b) (drop (Suc i) vecB)))"
    using Suc(2) iA by (intro Suc(1)) simp_all
  finally show ?case by (simp add: dA dB)
qed

lemma sum_loop_spec:
  assumes "length vecA = length vecB"
  shows "sum_loop vecA vecB 0 (Num False 0, Num False 0, Num False 0) =
     (dot_product_spec vecA vecB,
      foldl fadd (Num False 0) (map (\<lambda>a. fmul a a) vecA),
      foldl fadd (Num False 0) (map (\<lambda>b. fmul b b) vecB))"
  using sum_loop_folds[OF assms, of 0] by (simp add: dot_product_spec_def)

lemma Math_min_pair:
  "Math_min [Num False 1, c] = (if isNaN c then NaN else if flt c (Num False 1) then c else Num False 1)"
  by (cases c) (auto simp: Math_min_def)

lemma Math_max_pair:
  "Math_max [Num True 1, c] = (if isNaN c then NaN else if flt (Num True 1) c then c else Num True 1)"
  by (cases c) (auto simp: Math_max_def)

text \<open>
  The value of \<^verbatim>\<open>Math.max(-1, Math.min(1, c))\<close>: \<open>NaN\<close> goes through, every other value is
  clamped as the specification says.
\<close>

lemma clamp_value:
  "Math_max [Num True 1, Math_min [Num False 1, c]] =
     (if isNaN c then NaN
      else if fle (Num False 1) c then Num False 1
      else if fle c (Num True 1) then Num True 1
      else c)"
proof (cases c)
  case NaN
  then show ?thesis by (simp add: Math_min_pair Math_max_pair fle_def)
next
  case (Infty s)
  then show ?thesis by (cases s) (simp_all add: Math_min_pair Math_max_pair fle_def)
next
  case (Num s a)
  then show ?thesis
    by (auto simp: Math_min_pair Math_max_pair fle_def)
qed

lemma clamp_code:
  "\<not> isNaN c \<Longrightarrow> clamp_spec c = Some (Math_max [Num True 1, Math_min [Num False 1, c]])"
  by (simp add: clamp_value clamp_spec_def)

lemma clamp_NaN: "Math_max [Num True 1, Math_min [Num False 1, NaN]] = NaN"
  by (simp add: clamp_value)

lemma clamp_spec_range:
  assumes "clamp_spec c = Some r"
  shows "isFinite r \<and> fle (Num True 1) r \<and> fle r (Num False 1)"
proof (cases c)
  case NaN
  then show ?thesis using assms by (simp add: clamp_spec_def)
next
  case (Infty s)
  then show ?thesis using assms by (cases s) (auto simp: clamp_spec_def fle_def)
next
  case (Num s a)
  then show ?thesis using assms by (auto simp: clamp_spec_def fle_def split: if_splits)
qed

lemma calculateCosineSimilarity_spec:
  assumes "length vecA = length vecB" "vecA \<noteq> []"
  shows "calculateCosineSimilarity acos_impl vecA vecB =
    Some (if feq (magnitude_spec vecA) (Num False 0) \<or> feq (magnitude_spec vecB) (Num False 0)
      then \<lparr>dotProduct = dot_product_spec vecA vecB, magnitudeA = magnitude_spec vecA,
            magnitudeB = magnitude_spec vecB, cosineSimilarity = Num False 0,
            angleDegrees = Num False 0, dimensions = length vecA\<rparr>
      else \<lparr>dotProduct = dot_product_spec vecA vecB, magnitudeA = magnitude_spec vecA,
            magnitudeB = magnitude_spec vecB,
            cosineSimilarity =
              Math_max [Num True 1, Math_min [Num False 1,
                fdiv (dot_product_spec vecA vecB)
                     (fmul (magnitude_spec vecA) (magnitude_spec vecB))]],
            angleDegrees =
              degrees_spec (Math_acos acos_impl
                (Math_max [Num True 1, Math_min [Num False 1,
                   fdiv (dot_product_spec vecA vecB)
                        (fmul (magnitude_spec vecA) (magnitude_spec vecB))]])),
            dimensions = length vecA\<rparr>)"
proof -
  have "vecB \<noteq> []" using assms by auto
  then show ?thesis using assms
    by (simp add: calculateCosineSimilarity_def sum_loop_spec magnitude_spec_def
        degrees_spec_def Let_def)
qed

text \<open>The calculator at the inputs of the specification's examples.\<close>

lemmas eval_simps = round64_zero round64_numeral round64_one dot_product_spec_def magnitude_spec_def

lemma sqrt_9: "sqrt 9 = 3" by (rule real_sqrt_unique) simp_all
lemma sqrt_16: "sqrt 16 = 4" by (rule real_sqrt_unique) simp_all

lemma example_3_4:
  assumes "acos_impl 0 = Num False (884279719003555 / 2 ^ 49)"
  shows "calculateCosineSimilarity acos_impl [Num False 3, Num False 0] [Num False 0, Num False 4] =
     Some \<lparr>dotProduct = Num False 0, magnitudeA = Num False 3, magnitudeB = Num False 4,
           cosineSimilarity = Num False 0, angleDegrees = Num False 90, dimensions = 2\<rparr>"
proof -
  have d: "dot_product_spec [Num False 3, Num False 0] [Num False 0, Num False 4] = Num False 0"
    by (simp add: eval_simps)
  have a: "magnitude_spec [Num False 3, Num False 0] = Num False 3"
    by (simp add: eval_simps sqrt_9)
  have b: "magnitude_spec [Num False 0, Num False 4] = Num False 4"
    by (simp add: eval_simps sqrt_16)
  have c: "Math_max [Num True 1, Math_min [Num False 1, Num False 0]] = Num False 0"
    by (simp add: clamp_value fle_def)
  show ?thesis
    using assms degrees_right_angle
    by (simp add: calculateCosineSimilarity_spec d a b c round64_numeral round64_zero)
qed

lemma example_zero:
  "calculateCosineSimilarity acos_impl [Num False 0, Num False 0] [Num False 1, Num False 2] =
     Some \<lparr>dotProduct = Num False 0, magnitudeA = Num False 0,
           magnitudeB = round64 False (sqrt 5),
           cosineSimilarity = Num False 0, angleDegrees = Num False 0, dimensions = 2\<rparr>"
proof -
  have d: "dot_product_spec [Num False 0, Num False 0] [Num False 1, Num False 2] = Num False 0"
    by (simp add: eval_simps)
  have a: "magnitude_spec [Num False 0, Num False 0] = Num False 0"
    by (simp add: eval_simps)
  have b: "magnitude_spec [Num False 1, Num False 2] = round64 False (sqrt 5)"
    by (simp add: eval_simps)
  show ?thesis
    by (simp add: calculateCosineSimilarity_spec d a b)
qed

lemma pow_600: "round64 s (2 ^ 600 * 2 ^ 600) = Infty s"
  by (rule round64_overflow) simp

lemma example_overflow:
  "calculateCosineSimilarity acos_impl [Num False (2 ^ 600)] [Num False (2 ^ 600)] =
     Some \<lparr>dotProduct = Infty False, magnitudeA = Infty False, magnitudeB = Infty False,
           cosineSimilarity = NaN, angleDegrees = NaN, dimensions = 1\<rparr>"
proof -
  have d: "dot_product_spec [Num False (2 ^ 600)] [Num False (2 ^ 600)] = Infty False"
    using pow_600[of False] by (simp add: dot_product_spec_def)
  have a: "magnitude_spec [Num False (2 ^ 600)] = Infty False"
    using pow_600[of False] by (simp add: magnitude_spec_def)
  have c: "Math_max [Num True 1, Math_min [Num False 1, NaN]] = NaN"
    by (rule clamp_NaN)
  show ?thesis
    using d a c by (simp add: calculateCosineSimilarity_spec degrees_spec_def)
qed

text \<open>
  Squares below the subnormal range underflow to \<open>+0\<close>: a vector of such components has
  the computed magnitude \<open>0\<close> and takes the zero guard.
\<close>

lemma example_underflow:
  "calculateCosineSimilarity acos_impl [Num False (2 powi (- 600))] [Num False (2 powi (- 600))] =
     Some \<lparr>dotProduct = Num False 0, magnitudeA = Num False 0, magnitudeB = Num False 0,
           cosineSimilarity = Num False 0, angleDegrees = Num False 0, dimensions = 1\<rparr>"
proof -
  have "round64 False (2 powi (- 600) * 2 powi (- 600)) = Num False 0"
    by (rule round64_underflow) (simp_all add: power_int_minus field_simps)
  then have d: "dot_product_spec [Num False (2 powi (- 600))] [Num False (2 powi (- 600))] = Num False 0"
    and a: "magnitude_spec [Num False (2 powi (- 600))] = Num False 0"
    by (simp_all add: dot_product_spec_def magnitude_spec_def)
  show ?thesis
    using d a by (simp add: calculateCosineSimilarity_spec)
qed

lemma double_pow_600: "double (Num False (2 ^ 600))"
  using round64_exact[of 1 600 False] by simp

lemma round64_sqrt_5: "round64 False (sqrt 5) = Num False (629397181890197 / 2 ^ 48)"
proof (rule round64_eval[where k = 1 and m = 5035177455121576])
  have lo: "(10070354910243151 / 2 ^ 52) < sqrt 5"
    by (rule real_less_rsqrt) (simp add: power2_eq_square)
  have hi: "sqrt 5 < (10070354910243153 / 2 ^ 52)"
    by (rule real_less_lsqrt) (simp_all add: power2_eq_square)
  show "2 powi 1 \<le> sqrt 5" using lo by simp
  show "sqrt 5 < 2 powi (1 + 1)" using hi by simp
  show "round_half_even (sqrt 5 / 2 powi max (1 - 52) (- 1074)) = 5035177455121576"
    using lo hi by (intro rhe_nearest) (simp_all add: field_simps)
qed simp_all

lemma witness_1_0:
  "calculateCosineSimilarity acos_impl [Num False 1, Num False 0] [Num False 1, Num False 0] =
     Some \<lparr>dotProduct = Num False 1, magnitudeA = Num False 1, magnitudeB = Num False 1,
           cosineSimilarity = Num False 1, angleDegrees = Num False 0, dimensions = 2\<rparr>"
proof -
  have d: "dot_product_spec [Num False 1, Num False 0] [Num False 1, Num False 0] = Num False 1"
    by (simp add: eval_simps)
  have a: "magnitude_spec [Num False 1, Num False 0] = Num False 1"
    by (simp add: eval_simps)
  have c: "Math_max [Num True 1, Math_min [Num False 1, Num False 1]] = Num False 1"
    by (simp add: clamp_value fle_def)
  show ?thesis
    using degrees_per_radian
    by (simp add: calculateCosineSimilarity_spec d a c round64_one round64_zero degrees_spec_def)
qed


text \<open>
  The computed magnitude is not zero as soon as one component is at least
  \<open>2 powi - 537\<close> in absolute value (or is not finite): its square is at least the
  least positive binary64 value, and neither the sums nor the square root round a
  value of that size to zero.
\<close>

lemma not_tiny_not_negative: "not_tiny n \<Longrightarrow> not_negative n"
  unfolding not_tiny_def not_negative_def
  by (smt (verit) zero_less_power_int)

lemma round64_False_cases:
  assumes "0 \<le> x"
  shows "round64 False x = Infty False \<or> (\<exists>y. round64 False x = Num False y \<and> 0 \<le> y)"
proof (cases "round64 False x")
  case NaN
  then show ?thesis by (simp add: round64_not_NaN)
next
  case (Infty s)
  then show ?thesis by (auto simp: round64_def Let_def split: if_splits)
next
  case (Num t y)
  then show ?thesis using round64_nonneg[OF assms Num] by simp
qed

lemma round64_not_tiny:
  assumes "2 powi (- 1074) \<le> x"
  shows "not_tiny (round64 False x)"
proof -
  have x: "0 < x" using assms by (smt (verit) zero_less_power_int)
  have "of_int 1 * 2 powi (- 1074) \<le> x" using assms by simp
  from round64_lower[OF _ _ _ this x, of False] show ?thesis
    by (auto simp: not_tiny_def)
qed

lemma fadd_not_negative:
  assumes "not_negative x" "not_negative y"
  shows "not_negative (fadd x y)"
proof -
  consider "isNaN x \<or> isNaN y" | "\<not> isNaN x" "\<not> isNaN y" "x = Infty False \<or> y = Infty False"
    | a b where "x = Num False a" "y = Num False b" "0 \<le> a" "0 \<le> b"
    using assms unfolding not_negative_def by (cases x; cases y) auto
  then show ?thesis
  proof cases
    case 1
    then show ?thesis by (cases x; cases y) (auto simp: not_negative_def)
  next
    case 2
    then show ?thesis using assms by (cases x; cases y) (auto simp: not_negative_def)
  next
    case 3
    show ?thesis
    proof (cases "a + b = 0")
      case True
      then show ?thesis using 3 by (simp add: not_negative_def)
    next
      case False
      then have "0 \<le> \<bar>a + b\<bar>" "\<not> a + b < 0" using 3 by simp_all
      then show ?thesis
        using 3 False round64_False_cases[of "\<bar>a + b\<bar>"]
        by (auto simp: not_negative_def Let_def)
    qed
  qed
qed

lemma fadd_not_tiny:
  assumes "not_negative x" "not_negative y" "not_tiny x \<or> not_tiny y"
  shows "not_tiny (fadd x y)"
proof -
  consider "isNaN x \<or> isNaN y" | "\<not> isNaN x" "\<not> isNaN y" "x = Infty False \<or> y = Infty False"
    | a b where "x = Num False a" "y = Num False b" "0 \<le> a" "0 \<le> b"
    using assms(1,2) unfolding not_negative_def by (cases x; cases y) auto
  then show ?thesis
  proof cases
    case 1
    then show ?thesis by (cases x; cases y) (auto simp: not_tiny_def)
  next
    case 2
    then show ?thesis using assms(1,2) by (cases x; cases y) (auto simp: not_tiny_def not_negative_def)
  next
    case 3
    then have big: "2 powi (- 1074) \<le> a + b" using assms(3) by (auto simp: not_tiny_def)
    then have pos: "0 < a + b" by (smt (verit) zero_less_power_int)
    then have "fadd x y = round64 False (a + b)" using 3 by (simp add: Let_def)
    then show ?thesis using round64_not_tiny[OF big] by simp
  qed
qed

lemma square_not_negative: "not_negative (fmul a a)"
proof (cases a)
  case (Num s x)
  have "0 \<le> x * x" by simp
  from round64_False_cases[OF this] show ?thesis using Num by (auto simp: not_negative_def)
qed (simp_all add: not_negative_def)

lemma square_not_tiny:
  assumes "\<not> isFinite a \<or> 2 powi (- 537) \<le> \<bar>val a\<bar>"
  shows "not_tiny (fmul a a)"
proof (cases a)
  case (Num s x)
  then have "2 powi (- 537) \<le> \<bar>x\<bar>" using assms by (auto split: if_splits)
  then have "2 powi (- 537) * 2 powi (- 537) \<le> \<bar>x\<bar> * \<bar>x\<bar>"
    by (intro mult_mono) simp_all
  moreover have "(2::real) powi (- 537) * 2 powi (- 537) = 2 powi (- 1074)"
    by (simp flip: power_int_add)
  moreover have "\<bar>x\<bar> * \<bar>x\<bar> = x * x" by (simp add: abs_mult_self_eq)
  ultimately have "2 powi (- 1074) \<le> x * x" by simp
  from round64_not_tiny[OF this] show ?thesis using Num by simp
qed (simp_all add: not_tiny_def)

lemma sum_of_squares_not_negative:
  "not_negative acc \<Longrightarrow> not_negative (foldl fadd acc (map (\<lambda>a. fmul a a) as))"
  by (induction as arbitrary: acc) (simp_all add: fadd_not_negative square_not_negative)

lemma sum_of_squares_not_tiny:
  assumes "not_negative acc"
    and "not_tiny acc \<or> (\<exists>a \<in> set as. \<not> isFinite a \<or> 2 powi (- 537) \<le> \<bar>val a\<bar>)"
  shows "not_tiny (foldl fadd acc (map (\<lambda>a. fmul a a) as))"
  using assms
proof (induction as arbitrary: acc)
  case Nil
  then show ?case by simp
next
  case (Cons a as)
  have nn: "not_negative (fadd acc (fmul a a))"
    using Cons.prems(1) square_not_negative by (rule fadd_not_negative)
  show ?case
  proof (cases "not_tiny acc \<or> \<not> isFinite a \<or> 2 powi (- 537) \<le> \<bar>val a\<bar>")
    case True
    then have "not_tiny acc \<or> not_tiny (fmul a a)" using square_not_tiny[of a] by blast
    then have "not_tiny (fadd acc (fmul a a))"
      using Cons.prems(1) square_not_negative fadd_not_tiny by blast
    then show ?thesis using Cons.IH[OF nn] by simp
  next
    case False
    then have "\<exists>a \<in> set as. \<not> isFinite a \<or> 2 powi (- 537) \<le> \<bar>val a\<bar>"
      using Cons.prems(2) by auto
    then show ?thesis using Cons.IH[OF nn] by simp
  qed
qed

lemma Math_sqrt_not_tiny:
  assumes "not_tiny n"
  shows "\<not> feq (Math_sqrt n) (Num False 0)"
proof (cases n)
  case (Num s y)
  then have y: "2 powi (- 1074) \<le> y" "s = False" using assms by (auto simp: not_tiny_def)
  then have pos: "0 < y" by (smt (verit) zero_less_power_int)
  have "(2 powi (- 537))\<^sup>2 = (2::real) powi (- 1074)"
    by (simp add: power2_eq_square flip: power_int_add)
  then have "2 powi (- 537) \<le> sqrt y"
    using y(1) by (intro real_le_rsqrt) simp
  then have le: "of_int 1 * 2 powi (- 537) \<le> sqrt y" by simp
  have spos: "0 < sqrt y" using pos by simp
  have small: "0 < (2::real) powi (- 537)" by simp
  from round64_lower[OF _ _ _ le spos, of False] small show ?thesis
    using Num y(2) pos by auto
qed (use assms in \<open>auto simp: not_tiny_def\<close>)

lemma magnitude_spec_nonzero:
  assumes "\<exists>a \<in> set as. \<not> isFinite a \<or> 2 powi (- 537) \<le> \<bar>val a\<bar>"
  shows "\<not> feq (magnitude_spec as) (Num False 0)"
proof -
  have "not_negative (Num False 0)" by (simp add: not_negative_def)
  from sum_of_squares_not_tiny[OF this] assms show ?thesis
    unfolding magnitude_spec_def by (intro Math_sqrt_not_tiny) blast
qed

section \<open>The similarity formula\<close>

text \<open>
  A sum of squares is \<open>+0\<close> or at least the least positive binary64 value, so a computed
  magnitude that is a number other than zero is at least \<open>2 powi - 537\<close>, and the
  product of two such magnitudes does not underflow to zero. When the dot product and
  both magnitudes are finite, the quotient is therefore a number.
\<close>

lemma round64_zero_or_not_tiny:
  assumes "0 \<le> x"
  shows "round64 False x = Num False 0 \<or> not_tiny (round64 False x)"
proof (cases "x = 0")
  case True
  then show ?thesis by (simp add: round64_zero)
next
  case False
  define n where "n = round_half_even (x / quantum x)"
  have "of_int 0 \<le> x / quantum x" using assms quantum_pos[of x] by simp
  then have n0: "0 \<le> n" unfolding n_def by (rule rhe_ge)
  have q: "2 powi (- 1074) \<le> quantum x"
    unfolding quantum_def by (rule powi_mono) simp
  show ?thesis
  proof (cases "n = 0")
    case True
    then show ?thesis using False by (simp add: round64_def Let_def n_def[symmetric])
  next
    case nz: False
    then have "1 \<le> n" using n0 by simp
    then have "(1::real) \<le> of_int n" by simp
    then have "1 * quantum x \<le> of_int n * quantum x"
      using quantum_pos[of x] by (intro mult_right_mono) simp_all
    then have "quantum x \<le> of_int n * quantum x" by (simp only: mult_1)
    with q have "2 powi (- 1074) \<le> of_int n * quantum x" by (rule order_trans)
    then show ?thesis using False
      by (simp add: round64_def Let_def n_def[symmetric] not_tiny_def)
  qed
qed

lemma square_zero_or_not_tiny: "fmul a a = Num False 0 \<or> not_tiny (fmul a a)"
proof (cases a)
  case (Num s x)
  have "0 \<le> x * x" by simp
  from round64_zero_or_not_tiny[OF this] show ?thesis using Num by simp
qed (simp_all add: not_tiny_def)

lemma sum_of_squares_zero_or_not_tiny:
  assumes "acc = Num False 0 \<or> not_tiny acc"
  shows "foldl fadd acc (map (\<lambda>a. fmul a a) as) = Num False 0
         \<or> not_tiny (foldl fadd acc (map (\<lambda>a. fmul a a) as))"
  using assms
proof (induction as arbitrary: acc)
  case Nil
  then show ?case by simp
next
  case (Cons a as)
  have "fadd acc (fmul a a) = Num False 0 \<or> not_tiny (fadd acc (fmul a a))"
  proof (cases "acc = Num False 0 \<and> fmul a a = Num False 0")
    case True
    then show ?thesis by simp
  next
    case False
    then have tiny: "not_tiny acc \<or> not_tiny (fmul a a)"
      using Cons.prems square_zero_or_not_tiny[of a] by blast
    have "not_negative acc"
      using Cons.prems not_tiny_not_negative by (auto simp: not_negative_def)
    then have "not_tiny (fadd acc (fmul a a))"
      using square_not_negative tiny by (rule fadd_not_tiny)
    then show ?thesis by simp
  qed
  from Cons.IH[OF this] show ?case by simp
qed

lemma Math_sqrt_lower:
  assumes "not_tiny n" "Math_sqrt n = Num s y"
  shows "s = False \<and> 2 powi (- 537) \<le> y"
proof (cases n)
  case (Num t x)
  then have x: "2 powi (- 1074) \<le> x" "t = False" using assms(1) by (auto simp: not_tiny_def)
  then have pos: "0 < x" by (smt (verit) zero_less_power_int)
  have "(2 powi (- 537))\<^sup>2 = (2::real) powi (- 1074)"
    by (simp add: power2_eq_square flip: power_int_add)
  then have "2 powi (- 537) \<le> sqrt x"
    using x(1) by (intro real_le_rsqrt) simp
  then have le: "of_int 1 * 2 powi (- 537) \<le> sqrt x" by simp
  have spos: "0 < sqrt x" using pos by simp
  from round64_lower[OF _ _ _ le spos, of False] show ?thesis
    using Num x(2) pos assms(2) by auto
qed (use assms in \<open>auto simp: not_tiny_def split: if_splits\<close>)

lemma magnitude_spec_lower:
  assumes "magnitude_spec as = Num s y" "\<not> feq (magnitude_spec as) (Num False 0)"
  shows "s = False \<and> 2 powi (- 537) \<le> y"
proof -
  let ?sum = "foldl fadd (Num False 0) (map (\<lambda>a. fmul a a) as)"
  have "?sum = Num False 0 \<or> not_tiny ?sum"
    by (rule sum_of_squares_zero_or_not_tiny) simp
  moreover have "?sum \<noteq> Num False 0"
    using assms(2) by (auto simp: magnitude_spec_def)
  ultimately have "not_tiny ?sum" by simp
  then show ?thesis using assms(1) unfolding magnitude_spec_def by (rule Math_sqrt_lower)
qed

lemma quotient_not_NaN:
  assumes "isFinite d" "isFinite (magnitude_spec as)" "isFinite (magnitude_spec bs)"
    and "\<not> feq (magnitude_spec as) (Num False 0)" "\<not> feq (magnitude_spec bs) (Num False 0)"
  shows "\<not> isNaN (fdiv d (fmul (magnitude_spec as) (magnitude_spec bs)))"
proof -
  obtain sd x where d: "d = Num sd x" using assms(1) by (cases d) auto
  obtain sa ya where a: "magnitude_spec as = Num sa ya" using assms(2) by (cases "magnitude_spec as") auto
  obtain sb yb where b: "magnitude_spec bs = Num sb yb" using assms(3) by (cases "magnitude_spec bs") auto
  have la: "sa = False" "2 powi (- 537) \<le> ya" using magnitude_spec_lower[OF a assms(4)] by simp_all
  have lb: "sb = False" "2 powi (- 537) \<le> yb" using magnitude_spec_lower[OF b assms(5)] by simp_all
  have "(2::real) powi (- 537) * 2 powi (- 537) \<le> ya * yb"
    using la(2) lb(2) by (intro mult_mono) simp_all
  moreover have "(2::real) powi (- 537) * 2 powi (- 537) = 2 powi (- 1074)"
    by (simp flip: power_int_add)
  ultimately have "2 powi (- 1074) \<le> ya * yb" by simp
  then have nt: "not_tiny (round64 False (ya * yb))" by (rule round64_not_tiny)
  have prod: "fmul (magnitude_spec as) (magnitude_spec bs) = round64 False (ya * yb)"
    using a b la(1) lb(1) by simp
  show ?thesis
  proof (cases "round64 False (ya * yb)")
    case NaN
    then show ?thesis by (simp add: round64_not_NaN)
  next
    case (Infty t)
    then show ?thesis using d prod by simp
  next
    case (Num t y)
    then have "2 powi (- 1074) \<le> y" using nt by (simp add: not_tiny_def)
    then have "0 < y" by (smt (verit) zero_less_power_int)
    then show ?thesis using d prod Num
      by (cases "round64 (sd \<noteq> t) (x / y)") (simp_all add: round64_not_NaN)
  qed
qed

text \<open>
  Sums that stay finite. A binary64 component of absolute value at most \<open>2 ^ 500\<close> has
  a square, and a product with another such component, of at most \<open>2 ^ 1000\<close>; the sum
  of \<open>k\<close> such terms is at most \<open>k * 2 ^ 1000\<close> in absolute value, a binary64 value
  as long as \<open>k < 2 ^ 24\<close>, so no rounding takes it above. For vectors of fewer than
  \<open>2 ^ 24\<close> such components the dot product and the magnitudes are finite.
\<close>

lemma bound_finite:
  assumes "0 \<le> k" "k < 2 ^ 24"
  shows "of_int k * 2 powi 1000 < (2::real) ^ 1024"
proof -
  have "(of_int k :: real) < 2 ^ 24" using assms(2) by (rule of_int_less_pow2)
  then have "of_int k * (2::real) powi 1000 < 2 ^ 24 * 2 powi 1000"
    by (intro mult_strict_right_mono) simp_all
  also have "(2::real) ^ 24 * 2 powi 1000 = 2 ^ 1024"
    by (simp add: power_int_def flip: power_add)
  finally show ?thesis .
qed

lemma fmul_bounded:
  assumes "0 \<le> a" "a \<le> 2 ^ 500" "0 \<le> b" "b \<le> 2 ^ 500"
  shows "\<exists>y. fmul (Num s a) (Num t b) = Num (s \<noteq> t) y \<and> 0 \<le> y \<and> y \<le> of_int 1 * 2 powi 1000"
proof -
  have "a * b \<le> 2 ^ 500 * 2 ^ 500" using assms by (intro mult_mono) simp_all
  also have "(2::real) ^ 500 * 2 ^ 500 = of_int 1 * 2 powi 1000"
    by (simp add: power_int_def flip: power_add)
  finally have le: "a * b \<le> of_int 1 * 2 powi 1000" .
  have x: "0 \<le> a * b" using assms by simp
  have fin: "of_int 1 * 2 powi 1000 < (2::real) ^ 1024" by (rule bound_finite) simp_all
  from round64_upper[OF _ _ _ fin le x, of "s \<noteq> t"]
  obtain y where y: "round64 (s \<noteq> t) (a * b) = Num (s \<noteq> t) y" "y \<le> of_int 1 * 2 powi 1000"
    by auto
  from round64_nonneg[OF x y(1)] have "0 \<le> y" by simp
  then show ?thesis using y by simp
qed

lemma fadd_bounded:
  assumes a: "0 \<le> a" "a \<le> of_int k * 2 powi 1000"
    and b: "0 \<le> b" "b \<le> of_int 1 * 2 powi 1000"
    and k: "0 \<le> k" "k + 1 < 2 ^ 24"
  shows "\<exists>u c. fadd (Num s a) (Num t b) = Num u c \<and> 0 \<le> c \<and> c \<le> of_int (k + 1) * 2 powi 1000"
proof -
  define v where "v = val (Num s a) + val (Num t b)"
  have "\<bar>v\<bar> \<le> a + b" unfolding v_def using a(1) b(1) by (auto split: if_splits)
  also have "\<dots> \<le> of_int k * 2 powi 1000 + of_int 1 * 2 powi 1000"
    using a(2) b(2) by (rule add_mono)
  also have "\<dots> = of_int (k + 1) * 2 powi 1000"
    by (simp only: of_int_add distrib_right)
  finally have le: "\<bar>v\<bar> \<le> of_int (k + 1) * 2 powi 1000" .
  show ?thesis
  proof (cases "v = 0")
    case True
    have "(0::real) \<le> of_int (k + 1) * 2 powi 1000" using le by simp
    then show ?thesis using True unfolding v_def by (simp add: Let_def)
  next
    case False
    have fin: "of_int (k + 1) * 2 powi 1000 < (2::real) ^ 1024"
      using k by (intro bound_finite) simp_all
    have m: "0 \<le> k + 1" "k + 1 < 2 ^ 53" using k by simp_all
    have x: "0 \<le> \<bar>v\<bar>" by simp
    from round64_upper[OF m _ fin le x, of "v < 0"]
    obtain y where y: "round64 (v < 0) \<bar>v\<bar> = Num (v < 0) y" "y \<le> of_int (k + 1) * 2 powi 1000"
      by auto
    from round64_nonneg[OF x y(1)] have "0 \<le> y" by simp
    moreover have "fadd (Num s a) (Num t b) = round64 (v < 0) \<bar>v\<bar>"
      using False unfolding v_def by (simp add: Let_def)
    ultimately show ?thesis using y by simp
  qed
qed

lemma sum_bounded:
  assumes "\<forall>p \<in> set ps. \<exists>s y. p = Num s y \<and> 0 \<le> y \<and> y \<le> of_int 1 * 2 powi 1000"
    and "0 \<le> a" "a \<le> of_int k * 2 powi 1000" "0 \<le> k" "k + int (length ps) < 2 ^ 24"
  shows "\<exists>u c. foldl fadd (Num s a) ps = Num u c \<and> 0 \<le> c
           \<and> c \<le> of_int (k + int (length ps)) * 2 powi 1000"
  using assms
proof (induction ps arbitrary: s a k)
  case Nil
  then show ?case by simp
next
  case (Cons p ps)
  obtain t b where p: "p = Num t b" "0 \<le> b" "b \<le> of_int 1 * 2 powi 1000"
    using Cons.prems(1) by auto
  have k1: "k + 1 < 2 ^ 24" using Cons.prems(5) by simp
  from fadd_bounded[OF Cons.prems(2,3) p(2,3) Cons.prems(4) k1, of s t]
  obtain u c where c: "fadd (Num s a) p = Num u c" "0 \<le> c" "c \<le> of_int (k + 1) * 2 powi 1000"
    using p(1) by auto
  have rest: "\<forall>p \<in> set ps. \<exists>s y. p = Num s y \<and> 0 \<le> y \<and> y \<le> of_int 1 * 2 powi 1000"
    using Cons.prems(1) by simp
  have "0 \<le> k + 1" using Cons.prems(4) by simp
  moreover have "k + 1 + int (length ps) < 2 ^ 24" using Cons.prems(5) by simp
  ultimately obtain u' c' where "foldl fadd (Num u c) ps = Num u' c'" "0 \<le> c'"
      "c' \<le> of_int (k + 1 + int (length ps)) * 2 powi 1000"
    using Cons.IH[OF rest c(2,3), of u] by auto
  moreover have "k + 1 + int (length ps) = k + int (length (p # ps))" by simp
  ultimately show ?case using c(1) by (simp del: of_int_add) 
qed


lemma moderate_cases:
  assumes "double a \<and> isFinite a \<and> \<bar>val a\<bar> \<le> 2 ^ 500"
  obtains s y where "a = Num s y" "0 \<le> y" "y \<le> 2 ^ 500"
  using assms by (cases a) (auto split: if_splits)

lemma products_bounded:
  assumes "\<forall>a \<in> set as. double a \<and> isFinite a \<and> \<bar>val a\<bar> \<le> 2 ^ 500"
    and "\<forall>b \<in> set bs. double b \<and> isFinite b \<and> \<bar>val b\<bar> \<le> 2 ^ 500"
  shows "\<forall>p \<in> set (map2 fmul as bs).
           \<exists>s y. p = Num s y \<and> 0 \<le> y \<and> y \<le> of_int 1 * 2 powi 1000"
proof
  fix p assume "p \<in> set (map2 fmul as bs)"
  then obtain a b where ab: "(a, b) \<in> set (zip as bs)" "p = fmul a b" by auto
  then have "a \<in> set as" "b \<in> set bs"
    by (auto dest: set_zip_leftD set_zip_rightD)
  then obtain s x t y where "a = Num s x" "0 \<le> x" "x \<le> 2 ^ 500"
      "b = Num t y" "0 \<le> y" "y \<le> 2 ^ 500"
    using assms by (metis moderate_cases)
  then show "\<exists>s y. p = Num s y \<and> 0 \<le> y \<and> y \<le> of_int 1 * 2 powi 1000"
    using fmul_bounded[of x y s t] ab(2) by blast
qed

lemma squares_bounded:
  assumes "\<forall>a \<in> set as. double a \<and> isFinite a \<and> \<bar>val a\<bar> \<le> 2 ^ 500"
  shows "\<forall>p \<in> set (map (\<lambda>a. fmul a a) as).
           \<exists>s y. p = Num s y \<and> 0 \<le> y \<and> y \<le> of_int 1 * 2 powi 1000"
proof
  fix p assume "p \<in> set (map (\<lambda>a. fmul a a) as)"
  then obtain a where a: "a \<in> set as" "p = fmul a a" by auto
  then obtain s x where "a = Num s x" "0 \<le> x" "x \<le> 2 ^ 500"
    using assms by (metis moderate_cases)
  then show "\<exists>s y. p = Num s y \<and> 0 \<le> y \<and> y \<le> of_int 1 * 2 powi 1000"
    using fmul_bounded[of x x s s] a(2) by blast
qed

lemma dot_product_finite:
  assumes "\<forall>a \<in> set as. double a \<and> isFinite a \<and> \<bar>val a\<bar> \<le> 2 ^ 500"
    and "\<forall>b \<in> set bs. double b \<and> isFinite b \<and> \<bar>val b\<bar> \<le> 2 ^ 500"
    and "length as < 2 ^ 24"
  shows "isFinite (dot_product_spec as bs)"
proof -
  have "int (length as) < int (2 ^ 24)" using assms(3) by (simp only: of_nat_less_iff)
  then have "int (length as) < 2 ^ 24" by simp
  moreover have "int (length (map2 fmul as bs)) \<le> int (length as)" by simp
  ultimately have n: "0 + int (length (map2 fmul as bs)) < 2 ^ 24" by simp
  have z: "(0::real) \<le> of_int 0 * 2 powi 1000" by simp
  from sum_bounded[OF products_bounded[OF assms(1,2)] order_refl z order_refl n, of False]
  show ?thesis unfolding dot_product_spec_def by auto
qed

lemma magnitude_finite:
  assumes "\<forall>a \<in> set as. double a \<and> isFinite a \<and> \<bar>val a\<bar> \<le> 2 ^ 500"
    and "length as < 2 ^ 24"
  shows "isFinite (magnitude_spec as)"
proof -
  let ?sum = "foldl fadd (Num False 0) (map (\<lambda>a. fmul a a) as)"
  have "int (length as) < int (2 ^ 24)" using assms(2) by (simp only: of_nat_less_iff)
  then have len: "int (length as) < 2 ^ 24" by simp
  then have n: "0 + int (length (map (\<lambda>a. fmul a a) as)) < 2 ^ 24" by simp
  have z: "(0::real) \<le> of_int 0 * 2 powi 1000" by simp
  from sum_bounded[OF squares_bounded[OF assms(1)] order_refl z order_refl n, of False]
  obtain u c where c: "?sum = Num u c" "0 \<le> c" "c \<le> of_int (int (length as)) * 2 powi 1000"
    by auto
  have "not_negative ?sum"
    by (rule sum_of_squares_not_negative) (simp add: not_negative_def)
  then have u: "u = False" using c(1) by (simp add: not_negative_def)
  have "of_int (int (length as)) * 2 powi 1000 < (2::real) ^ 1024"
    using len by (intro bound_finite) simp_all
  then have "c \<le> (2 ^ 512)\<^sup>2" using c(3) by simp
  then have "sqrt c \<le> 2 ^ 512" by (intro real_le_lsqrt) simp_all
  then have le: "sqrt c \<le> of_int 1 * 2 powi 512" by (simp add: power_int_def)
  have fin: "of_int 1 * 2 powi 512 < (2::real) ^ 1024" by (simp add: power_int_def)
  have x: "0 \<le> sqrt c" using c(2) by simp
  from round64_upper[OF _ _ _ fin le x, of False]
  have "isFinite (round64 False (sqrt c))" by auto
  then show ?thesis unfolding magnitude_spec_def c(1) u by simp
qed

text \<open>
  Claim C1 (amended). For two vectors of the same non-zero length whose computed
  magnitudes are both non-zero and whose quotient of the dot product by the product of
  the magnitudes is not \<open>NaN\<close>, \<^verbatim>\<open>calculateCosineSimilarity\<close> returns a result whose dot
  product is \<open>\<Sum> a\<^sub>i * b\<^sub>i\<close>, whose magnitudes are the square roots of the sums of
  squares, whose cosine similarity is that quotient clamped to \<open>[-1, 1]\<close>, a number of
  that interval, and whose angle is \<^verbatim>\<open>Math.acos\<close> of the clamped value times
  \<open>180 / \<pi>\<close>, every operation being the binary64 one and \<^verbatim>\<open>Math.acos\<close> the engine's.
  The quotient is not \<open>NaN\<close> whenever the computed dot product and magnitudes are finite
  and the magnitudes non-zero; they are finite for vectors of fewer than \<open>2 ^ 24\<close>
  binary64 components of absolute value at most \<open>2 ^ 500\<close>; and the computed magnitude
  of a vector is not zero whenever one of its components is at least \<open>2 powi - 537\<close> in
  absolute value. For
  \<open>[3, 0]\<close> and \<open>[0, 4]\<close> the result is dot product 0, magnitudes 3 and 4, cosine
  similarity 0 and, on an engine whose \<^verbatim>\<open>Math.acos(0)\<close> is the binary64 value nearest to
  \<open>\<pi> / 2\<close>, an angle of 90 degrees.
\<close>

theorem calculateCosineSimilarity_formula:
  "(length vecA = length vecB \<and> vecA \<noteq> []
      \<and> \<not> feq (magnitude_spec vecA) (Num False 0) \<and> \<not> feq (magnitude_spec vecB) (Num False 0)
      \<and> \<not> isNaN (fdiv (dot_product_spec vecA vecB)
                        (fmul (magnitude_spec vecA) (magnitude_spec vecB)))
    \<longrightarrow> (\<exists>clamped.
           clamp_spec (fdiv (dot_product_spec vecA vecB)
                            (fmul (magnitude_spec vecA) (magnitude_spec vecB))) = Some clamped
           \<and> isFinite clamped \<and> fle (Num True 1) clamped \<and> fle clamped (Num False 1)
           \<and> calculateCosineSimilarity acos_impl vecA vecB =
               Some \<lparr>dotProduct = dot_product_spec vecA vecB,
                     magnitudeA = magnitude_spec vecA,
                     magnitudeB = magnitude_spec vecB,
                     cosineSimilarity = clamped,
                     angleDegrees = degrees_spec (Math_acos acos_impl clamped),
                     dimensions = length vecA\<rparr>))
   \<and> (isFinite (dot_product_spec vecA vecB)
        \<and> isFinite (magnitude_spec vecA) \<and> isFinite (magnitude_spec vecB)
        \<and> \<not> feq (magnitude_spec vecA) (Num False 0) \<and> \<not> feq (magnitude_spec vecB) (Num False 0)
      \<longrightarrow> \<not> isNaN (fdiv (dot_product_spec vecA vecB)
                          (fmul (magnitude_spec vecA) (magnitude_spec vecB))))
   \<and> (length vecA = length vecB \<and> length vecA < 2 ^ 24
        \<and> (\<forall>a \<in> set vecA. double a \<and> isFinite a \<and> \<bar>val a\<bar> \<le> 2 ^ 500)
        \<and> (\<forall>b \<in> set vecB. double b \<and> isFinite b \<and> \<bar>val b\<bar> \<le> 2 ^ 500)
      \<longrightarrow> isFinite (dot_product_spec vecA vecB)
          \<and> isFinite (magnitude_spec vecA) \<and> isFinite (magnitude_spec vecB))
   \<and> ((\<exists>a \<in> set vecA. \<not> isFinite a \<or> 2 powi (- 537) \<le> \<bar>val a\<bar>)
        \<longrightarrow> \<not> feq (magnitude_spec vecA) (Num False 0))
   \<and> (acos_impl 0 = Num False (884279719003555 / 2 ^ 49)
      \<longrightarrow> calculateCosineSimilarity acos_impl [Num False 3, Num False 0] [Num False 0, Num False 4] =
            Some \<lparr>dotProduct = Num False 0, magnitudeA = Num False 3, magnitudeB = Num False 4,
                  cosineSimilarity = Num False 0, angleDegrees = Num False 90,
                  dimensions = 2\<rparr>)"
  (is "?formula \<and> ?number \<and> ?finite \<and> ?nonzero \<and> ?example")
proof -
  let ?q = "fdiv (dot_product_spec vecA vecB) (fmul (magnitude_spec vecA) (magnitude_spec vecB))"
  let ?c = "Math_max [Num True 1, Math_min [Num False 1, ?q]]"
  have formula: ?formula
  proof (intro impI, elim conjE)
    assume len: "length vecA = length vecB" "vecA \<noteq> []"
      and nz: "\<not> feq (magnitude_spec vecA) (Num False 0)"
        "\<not> feq (magnitude_spec vecB) (Num False 0)"
      and q: "\<not> isNaN ?q"
    have c: "clamp_spec ?q = Some ?c" using q by (rule clamp_code)
    have range: "isFinite ?c \<and> fle (Num True 1) ?c \<and> fle ?c (Num False 1)"
      using c by (rule clamp_spec_range)
    have "calculateCosineSimilarity acos_impl vecA vecB =
        Some \<lparr>dotProduct = dot_product_spec vecA vecB, magnitudeA = magnitude_spec vecA,
              magnitudeB = magnitude_spec vecB, cosineSimilarity = ?c,
              angleDegrees = degrees_spec (Math_acos acos_impl ?c), dimensions = length vecA\<rparr>"
      unfolding calculateCosineSimilarity_spec[OF len] using nz by simp
    then show "\<exists>clamped. clamp_spec ?q = Some clamped
        \<and> isFinite clamped \<and> fle (Num True 1) clamped \<and> fle clamped (Num False 1)
        \<and> calculateCosineSimilarity acos_impl vecA vecB =
            Some \<lparr>dotProduct = dot_product_spec vecA vecB, magnitudeA = magnitude_spec vecA,
                  magnitudeB = magnitude_spec vecB, cosineSimilarity = clamped,
                  angleDegrees = degrees_spec (Math_acos acos_impl clamped),
                  dimensions = length vecA\<rparr>"
      using c range by blast
  qed
  have number: ?number using quotient_not_NaN[of "dot_product_spec vecA vecB" vecA vecB] by blast
  have finite: ?finite
  proof (intro impI, elim conjE)
    assume len: "length vecA = length vecB" "length vecA < 2 ^ 24"
      and a: "\<forall>a \<in> set vecA. double a \<and> isFinite a \<and> \<bar>val a\<bar> \<le> 2 ^ 500"
      and b: "\<forall>b \<in> set vecB. double b \<and> isFinite b \<and> \<bar>val b\<bar> \<le> 2 ^ 500"
    have lenB: "length vecB < 2 ^ 24" using len by (simp only:)
    show "isFinite (dot_product_spec vecA vecB)
        \<and> isFinite (magnitude_spec vecA) \<and> isFinite (magnitude_spec vecB)"
      by (intro conjI dot_product_finite[OF a b len(2)] magnitude_finite[OF a len(2)]
          magnitude_finite[OF b lenB])
  qed
  have nonzero: ?nonzero using magnitude_spec_nonzero[of vecA] by blast
  have example: ?example using example_3_4[of acos_impl] by blast
  show ?thesis by (intro conjI formula number finite nonzero example)
qed

theorem calculateCosineSimilarity_formula_witness:
  "length [Num False 1, Num False 0] = length [Num False 1, Num False 0]
   \<and> [Num False 1, Num False 0] \<noteq> []
   \<and> 2 powi (- 537) \<le> \<bar>val (Num False 1)\<bar>
   \<and> \<not> feq (magnitude_spec [Num False 1, Num False 0]) (Num False 0)
   \<and> length [Num False 1, Num False 0] < 2 ^ 24
   \<and> double (Num False 1) \<and> isFinite (Num False 1) \<and> \<bar>val (Num False 1)\<bar> \<le> 2 ^ 500
   \<and> double (Num False 0) \<and> isFinite (Num False 0) \<and> \<bar>val (Num False 0)\<bar> \<le> 2 ^ 500
   \<and> isFinite (dot_product_spec [Num False 1, Num False 0] [Num False 1, Num False 0])
   \<and> isFinite (magnitude_spec [Num False 1, Num False 0])
   \<and> \<not> isNaN (fdiv (dot_product_spec [Num False 1, Num False 0] [Num False 1, Num False 0])
                  (fmul (magnitude_spec [Num False 1, Num False 0])
                        (magnitude_spec [Num False 1, Num False 0])))
   \<and> clamp_spec (fdiv (dot_product_spec [Num False 1, Num False 0] [Num False 1, Num False 0])
                  (fmul (magnitude_spec [Num False 1, Num False 0])
                        (magnitude_spec [Num False 1, Num False 0]))) = Some (Num False 1)
   \<and> calculateCosineSimilarity acos_rounded [Num False 1, Num False 0] [Num False 1, Num False 0] =
       Some \<lparr>dotProduct = Num False 1, magnitudeA = Num False 1, magnitudeB = Num False 1,
             cosineSimilarity = Num False 1, angleDegrees = Num False 0, dimensions = 2\<rparr>
   \<and> acos_rounded 0 = Num False (884279719003555 / 2 ^ 49)
   \<and> calculateCosineSimilarity acos_rounded [Num False 3, Num False 0] [Num False 0, Num False 4] =
       Some \<lparr>dotProduct = Num False 0, magnitudeA = Num False 3, magnitudeB = Num False 4,
             cosineSimilarity = Num False 0, angleDegrees = Num False 90, dimensions = 2\<rparr>"
proof -
  note c1 = calculateCosineSimilarity_formula[of "[Num False 1, Num False 0]"
      "[Num False 1, Num False 0]" acos_rounded]
  have d: "dot_product_spec [Num False 1, Num False 0] [Num False 1, Num False 0] = Num False 1"
    by (simp add: eval_simps)
  have a: "magnitude_spec [Num False 1, Num False 0] = Num False 1"
    by (simp add: eval_simps)
  have big: "(2::real) powi (- 537) \<le> \<bar>val (Num False 1)\<bar>"
    by (simp add: power_int_minus field_simps)
  then have "\<exists>a \<in> set [Num False 1, Num False 0]. \<not> isFinite a \<or> 2 powi (- 537) \<le> \<bar>val a\<bar>"
    by simp
  then have nz: "\<not> feq (magnitude_spec [Num False 1, Num False 0]) (Num False 0)"
    using c1 by blast
  have len: "length [Num False 1, Num False 0] < 2 ^ 24" by simp
  have moderate: "double (Num False 1) \<and> isFinite (Num False 1) \<and> \<bar>val (Num False 1)\<bar> \<le> 2 ^ 500"
      "double (Num False 0) \<and> isFinite (Num False 0) \<and> \<bar>val (Num False 0)\<bar> \<le> 2 ^ 500"
    by (simp_all add: round64_one round64_zero)
  then have "\<forall>a \<in> set [Num False 1, Num False 0].
      double a \<and> isFinite a \<and> \<bar>val a\<bar> \<le> 2 ^ 500"
    by simp
  then have fin: "isFinite (dot_product_spec [Num False 1, Num False 0] [Num False 1, Num False 0])"
      "isFinite (magnitude_spec [Num False 1, Num False 0])"
    using c1 len by blast+
  have q: "\<not> isNaN (fdiv (dot_product_spec [Num False 1, Num False 0] [Num False 1, Num False 0])
                  (fmul (magnitude_spec [Num False 1, Num False 0])
                        (magnitude_spec [Num False 1, Num False 0])))"
    using c1 fin nz by blast
  have qv: "fdiv (dot_product_spec [Num False 1, Num False 0] [Num False 1, Num False 0])
                  (fmul (magnitude_spec [Num False 1, Num False 0])
                        (magnitude_spec [Num False 1, Num False 0])) = Num False 1"
    by (simp add: d a round64_one)
  have c: "clamp_spec (Num False 1) = Some (Num False 1)"
    by (simp add: clamp_spec_def fle_def)
  have "\<exists>clamped. clamp_spec (Num False 1) = Some clamped
      \<and> isFinite clamped \<and> fle (Num True 1) clamped \<and> fle clamped (Num False 1)
      \<and> calculateCosineSimilarity acos_rounded [Num False 1, Num False 0] [Num False 1, Num False 0] =
          Some \<lparr>dotProduct = Num False 1, magnitudeA = Num False 1, magnitudeB = Num False 1,
                cosineSimilarity = clamped,
                angleDegrees = degrees_spec (Math_acos acos_rounded clamped),
                dimensions = length [Num False 1, Num False 0]\<rparr>"
    using c1 nz q unfolding qv by (simp add: d a)
  then have r: "calculateCosineSimilarity acos_rounded [Num False 1, Num False 0] [Num False 1, Num False 0] =
       Some \<lparr>dotProduct = Num False 1, magnitudeA = Num False 1, magnitudeB = Num False 1,
             cosineSimilarity = Num False 1, angleDegrees = Num False 0, dimensions = 2\<rparr>"
    using degrees_per_radian by (auto simp: c degrees_spec_def round64_zero)
  have e: "calculateCosineSimilarity acos_rounded [Num False 3, Num False 0] [Num False 0, Num False 4] =
       Some \<lparr>dotProduct = Num False 0, magnitudeA = Num False 3, magnitudeB = Num False 4,
             cosineSimilarity = Num False 0, angleDegrees = Num False 90, dimensions = 2\<rparr>"
    using c1 acos_rounded_zero by blast
  show ?thesis
    using big nz len moderate fin q r e acos_rounded_zero unfolding qv by (simp add: c)
qed

text \<open>
  Claim C1 as first stated asks for the Euclidean magnitudes to be non-zero and
  promises the quotient clamped to \<open>[-1, 1]\<close>. It fails at both ends of the binary64
  range, on a vector paired with itself, where the cosine of the angle is \<open>1\<close>. The
  vector \<open>[2 powi - 600]\<close> is a binary64 vector of Euclidean magnitude \<open>2 powi - 600\<close>,
  but its square underflows: the computed magnitudes are \<open>0\<close>, the zero guard returns
  cosine similarity \<open>0\<close>, and the quotient of the returned fields, \<open>0 / (0 * 0)\<close>, has
  no clamp. The vector \<open>[2 ^ 600]\<close> has Euclidean magnitude \<open>2 ^ 600\<close> and its square
  overflows: the computed magnitudes are \<open>+\<infinity>\<close>, not zero, the quotient
  \<open>\<infinity> / (\<infinity> * \<infinity>)\<close> has no clamp, and the cosine similarity returned is \<open>NaN\<close>.
\<close>

theorem formula_fails_outside_the_range:
  "double (Num False (2 powi (- 600)))
   \<and> euclidean_magnitude [Num False (2 powi (- 600))] = 2 powi (- 600)
   \<and> euclidean_magnitude [Num False (2 powi (- 600))] \<noteq> 0
   \<and> val (Num False (2 powi (- 600))) * val (Num False (2 powi (- 600)))
       / (euclidean_magnitude [Num False (2 powi (- 600))]
          * euclidean_magnitude [Num False (2 powi (- 600))]) = 1
   \<and> calculateCosineSimilarity acos_rounded
         [Num False (2 powi (- 600))] [Num False (2 powi (- 600))] =
       Some \<lparr>dotProduct = Num False 0, magnitudeA = Num False 0, magnitudeB = Num False 0,
             cosineSimilarity = Num False 0, angleDegrees = Num False 0, dimensions = 1\<rparr>
   \<and> clamp_spec (fdiv (Num False 0) (fmul (Num False 0) (Num False 0))) = None
   \<and> double (Num False (2 ^ 600))
   \<and> euclidean_magnitude [Num False (2 ^ 600)] = 2 ^ 600
   \<and> euclidean_magnitude [Num False (2 ^ 600)] \<noteq> 0
   \<and> val (Num False (2 ^ 600)) * val (Num False (2 ^ 600))
       / (euclidean_magnitude [Num False (2 ^ 600)] * euclidean_magnitude [Num False (2 ^ 600)]) = 1
   \<and> calculateCosineSimilarity acos_rounded [Num False (2 ^ 600)] [Num False (2 ^ 600)] =
       Some \<lparr>dotProduct = Infty False, magnitudeA = Infty False, magnitudeB = Infty False,
             cosineSimilarity = NaN, angleDegrees = NaN, dimensions = 1\<rparr>
   \<and> \<not> feq (Infty False) (Num False 0)
   \<and> clamp_spec (fdiv (Infty False) (fmul (Infty False) (Infty False))) = None"
proof -
  have "(2::real) powi (- 600) \<le> 2 powi 0" by (rule powi_mono) simp
  also have "(2::real) powi 0 < 2 ^ 1024" by simp
  finally have "of_int 1 * (2::real) powi (- 600) < 2 ^ 1024"
    by (simp only: of_int_1 mult_1)
  then have "round64 False (of_int 1 * 2 powi (- 600)) = Num False (of_int 1 * 2 powi (- 600))"
    by (intro round64_exact) simp_all
  then have "round64 False (2 powi (- 600)) = Num False (2 powi (- 600))"
    by (simp only: of_int_1 mult_1)
  moreover have "(0::real) \<le> 2 powi (- 600)" by (rule zero_le_power_int) simp
  ultimately have small: "double (Num False (2 powi (- 600)))"
    by (simp only: double.simps)
  have single: "euclidean_magnitude [Num False x] = \<bar>x\<bar>" for x
    by (simp add: euclidean_magnitude_def)
  have e1: "euclidean_magnitude [Num False (2 powi (- 600))] = 2 powi (- 600)"
    unfolding single by simp
  have e2: "euclidean_magnitude [Num False (2 ^ 600)] = 2 ^ 600"
    unfolding single by simp
  have c1: "clamp_spec (fdiv (Num False 0) (fmul (Num False 0) (Num False 0))) = None"
    by (simp add: round64_zero clamp_spec_def)
  have c2: "clamp_spec (fdiv (Infty False) (fmul (Infty False) (Infty False))) = None"
    by (simp add: clamp_spec_def)
  have n1: "euclidean_magnitude [Num False (2 powi (- 600))] \<noteq> 0"
    unfolding e1 by simp
  have n2: "euclidean_magnitude [Num False (2 ^ 600)] \<noteq> 0"
    unfolding e2 by simp
  have cosine: "val (Num False x) * val (Num False x)
      / (euclidean_magnitude [Num False x] * euclidean_magnitude [Num False x]) = 1"
    if "x \<noteq> 0" for x
    unfolding single using that by simp
  have r1: "val (Num False (2 powi (- 600))) * val (Num False (2 powi (- 600)))
       / (euclidean_magnitude [Num False (2 powi (- 600))]
          * euclidean_magnitude [Num False (2 powi (- 600))]) = 1"
    by (rule cosine) simp
  have r2: "val (Num False (2 ^ 600)) * val (Num False (2 ^ 600))
       / (euclidean_magnitude [Num False (2 ^ 600)] * euclidean_magnitude [Num False (2 ^ 600)]) = 1"
    by (rule cosine) simp
  have g: "\<not> feq (Infty False) (Num False 0)" by simp
  show ?thesis
    by (intro conjI small e1 n1 r1 example_underflow c1 double_pow_600 e2 n2 r2
        example_overflow g c2)
qed

section \<open>Null results\<close>

text \<open>
  Claim C2. \<^verbatim>\<open>calculateCosineSimilarity\<close> returns \<^verbatim>\<open>null\<close> exactly when one of the two
  vectors is empty or their lengths differ; for every other pair it returns a
  result.
\<close>

theorem calculateCosineSimilarity_null_iff:
  "(calculateCosineSimilarity acos_impl vecA vecB = None) =
     (vecA = [] \<or> vecB = [] \<or> length vecA \<noteq> length vecB)"
  by (simp add: calculateCosineSimilarity_def Let_def split: prod.split)


section \<open>The zero-magnitude guard\<close>

text \<open>
  Claim C3. For two vectors of the same non-zero length, when the computed magnitude of
  either is zero, \<^verbatim>\<open>calculateCosineSimilarity\<close> returns a result with cosine similarity
  \<open>0\<close> and angle \<open>0\<close> (not \<open>NaN\<close>), and with the dot product, the two magnitudes and
  the dimension as computed. For \<open>[0, 0]\<close> and \<open>[1, 2]\<close> the cosine similarity and the
  angle are \<open>0\<close>.
\<close>

theorem calculateCosineSimilarity_zero_magnitude:
  "(length vecA = length vecB \<and> vecA \<noteq> []
      \<and> (feq (magnitude_spec vecA) (Num False 0) \<or> feq (magnitude_spec vecB) (Num False 0))
    \<longrightarrow> calculateCosineSimilarity acos_impl vecA vecB =
          Some \<lparr>dotProduct = dot_product_spec vecA vecB,
                magnitudeA = magnitude_spec vecA,
                magnitudeB = magnitude_spec vecB,
                cosineSimilarity = Num False 0,
                angleDegrees = Num False 0,
                dimensions = length vecA\<rparr>)
   \<and> calculateCosineSimilarity acos_impl [Num False 0, Num False 0] [Num False 1, Num False 2] =
       Some \<lparr>dotProduct = Num False 0, magnitudeA = Num False 0,
             magnitudeB = Num False (629397181890197 / 2 ^ 48),
             cosineSimilarity = Num False 0, angleDegrees = Num False 0, dimensions = 2\<rparr>"
  using calculateCosineSimilarity_spec[of vecA vecB] example_zero round64_sqrt_5 by simp


theorem calculateCosineSimilarity_zero_magnitude_witness:
  "length [Num False 3] = length [Num False 0] \<and> [Num False 3] \<noteq> []
   \<and> feq (magnitude_spec [Num False 0]) (Num False 0)
   \<and> calculateCosineSimilarity acos_rounded [Num False 3] [Num False 0] =
       Some \<lparr>dotProduct = Num False 0, magnitudeA = Num False 3, magnitudeB = Num False 0,
             cosineSimilarity = Num False 0, angleDegrees = Num False 0, dimensions = 1\<rparr>"
proof -
  have a: "magnitude_spec [Num False 3] = Num False 3"
    by (simp add: eval_simps sqrt_9)
  have b: "magnitude_spec [Num False 0] = Num False 0"
    by (simp add: eval_simps)
  have d: "dot_product_spec [Num False 3] [Num False 0] = Num False 0"
    by (simp add: eval_simps)
  show ?thesis
    using calculateCosineSimilarity_zero_magnitude[of "[Num False 3]" "[Num False 0]" acos_rounded] by (simp add: a b d)
qed

section \<open>The scale of the 2D projector\<close>

text \<open>
  For finite components the maximum taken in \<^verbatim>\<open>maxVal\<close> is a finite number that is at
  least 1. Its padding by \<^verbatim>\<open>1.2\<close> is at least 1 as well, and is finite unless the
  product overflows; \<^verbatim>\<open>scale\<close> is the rounded quotient of 130 by it, which lies
  between two representable values.
\<close>

lemma literal_1_2: "round64 False (12 / 10) = Num False (5404319552844595 / 2 ^ 52)"
  by (rule round64_eval[where k = 0 and m = 5404319552844595])
     (simp_all add: round_half_even_def Let_def)

lemma round64_finite_less:
  assumes "round64 s x = Num t y"
  shows "y < 2 ^ 1024"
  using assms by (auto simp: round64_def Let_def split: if_splits)

lemma center2D_value: "center2D = Num False 150"
  by (simp add: center2D_def size2D_def round64_numeral)

lemma extent_value: "fsub center2D (Num False 20) = Num False 130"
  by (simp add: center2D_value fsub_def round64_numeral)

lemma max_step_Num:
  "max_step (Num False a) (Num False b) = Num False (max a b)"
  by (auto simp: max_def)

lemma Math_max_abs_floor:
  assumes "isFinite a0" "isFinite a1" "isFinite b0" "isFinite b1"
  shows "\<exists>m. Math_max [Math_abs a0, Math_abs a1, Math_abs b0, Math_abs b1, Num False 1] = Num False m
           \<and> 1 \<le> m \<and> m = Max {val (Math_abs a0), val (Math_abs a1), val (Math_abs b0), val (Math_abs b1), 1}"
proof -
  obtain s0 x0 where a0: "a0 = Num s0 x0" using assms(1) by (cases a0) auto
  obtain s1 x1 where a1: "a1 = Num s1 x1" using assms(2) by (cases a1) auto
  obtain t0 y0 where b0: "b0 = Num t0 y0" using assms(3) by (cases b0) auto
  obtain t1 y1 where b1: "b1 = Num t1 y1" using assms(4) by (cases b1) auto
  show ?thesis
    unfolding a0 a1 b0 b1 Math_max_def
    by (simp add: max_step_Num del: max_step.simps) (auto simp: max_def)
qed


lemma padded_lower:
  assumes "1 \<le> m"
  shows "round64 False (m * (5404319552844595 / 2 ^ 52)) = Infty False
         \<or> (\<exists>y. round64 False (m * (5404319552844595 / 2 ^ 52)) = Num False y \<and> 1 \<le> y \<and> y < 2 ^ 1024)"
proof -
  let ?x = "m * (5404319552844595 / 2 ^ 52)"
  have x: "1 \<le> ?x" using assms by simp
  then have "of_int 1 * 2 powi 0 \<le> ?x" "0 < ?x" by simp_all
  from round64_lower[OF _ _ _ this, of False]
  show ?thesis using round64_finite_less[of False ?x False] by auto
qed

lemma padded_finite:
  assumes "1 \<le> m" "m \<le> 2 ^ 1023"
  shows "\<exists>y. round64 False (m * (5404319552844595 / 2 ^ 52)) = Num False y \<and> 1 \<le> y \<and> y < 2 ^ 1024"
proof -
  let ?x = "m * (5404319552844595 / 2 ^ 52)"
  have "?x \<le> 2 ^ 1023 * (5404319552844595 / 2 ^ 52)"
    using assms(2) by (intro mult_right_mono) simp_all
  also have "\<dots> = of_int 5404319552844595 * 2 powi 971"
    by (simp add: power_int_def)
  finally have le: "?x \<le> of_int 5404319552844595 * 2 powi 971" .
  have fin: "of_int 5404319552844595 * 2 powi 971 < (2::real) ^ 1024"
    by (simp add: power_int_def)
  have "0 \<le> ?x" using assms(1) by simp
  from round64_upper[OF _ _ _ fin le this, of False]
  obtain y where "round64 False ?x = Num False y" by auto
  with padded_lower[OF assms(1)] show ?thesis by auto
qed

lemma scale_from_finite:
  assumes "1 \<le> y" "y < 2 ^ 1024"
  shows "\<exists>z. fdiv (Num False 130) (Num False y) = Num False z \<and> 0 < z \<and> z \<le> 130"
proof -
  have y: "0 < y" using assms(1) by simp
  have up: "130 / y \<le> of_int 130 * 2 powi 0" using assms(1) y by (simp add: field_simps)
  have "(2::real) powi (- 1024) < 1 / y"
    using assms(2) y by (simp add: power_int_minus field_simps)
  then have lo: "of_int 1 * 2 powi (- 1024) \<le> 130 / y"
    using y by (simp add: field_simps)
  have pos: "0 < 130 / y" using y by simp
  obtain z where z: "round64 False (130 / y) = Num False z" "z \<le> 130"
    using round64_upper[OF _ _ _ _ up, of False] pos by auto
  have "(2::real) powi (- 1024) \<le> z"
    using round64_lower[OF _ _ _ lo pos, of False] z by auto
  then have "0 < z" by (smt (verit) zero_less_power_int)
  then show ?thesis using z y by auto
qed

lemma scale_from_infinite: "fdiv (Num False 130) (Infty False) = Num False 0"
  by simp

lemma maxVal2D_shape:
  assumes "isFinite a0" "isFinite a1" "isFinite b0" "isFinite b1"
  shows "\<exists>m. maxVal2D [a0, a1] [b0, b1] = round64 False (m * (5404319552844595 / 2 ^ 52))
           \<and> 1 \<le> m
           \<and> m = Max {val (Math_abs a0), val (Math_abs a1), val (Math_abs b0), val (Math_abs b1), 1}"
proof -
  from Math_max_abs_floor[OF assms] obtain m where
    m: "Math_max [Math_abs a0, Math_abs a1, Math_abs b0, Math_abs b1, Num False 1] = Num False m"
       "1 \<le> m"
       "m = Max {val (Math_abs a0), val (Math_abs a1), val (Math_abs b0), val (Math_abs b1), 1}"
    by blast
  have "maxVal2D [a0, a1] [b0, b1] = round64 False (m * (5404319552844595 / 2 ^ 52))"
    using m(1) literal_1_2 by (simp add: maxVal2D_def at_index_def)
  then show ?thesis using m(2,3) by blast
qed

lemma scale2D_finite_inputs:
  assumes "isFinite a0" "isFinite a1" "isFinite b0" "isFinite b1"
  shows "\<exists>z. scale2D [a0, a1] [b0, b1] = Num False z \<and> 0 \<le> z \<and> z \<le> 130
            \<and> (0 < z) = isFinite (maxVal2D [a0, a1] [b0, b1])"
proof -
  from maxVal2D_shape[OF assms] obtain m where
    m: "maxVal2D [a0, a1] [b0, b1] = round64 False (m * (5404319552844595 / 2 ^ 52))" "1 \<le> m"
    by blast
  from padded_lower[OF m(2)] show ?thesis
  proof
    assume "round64 False (m * (5404319552844595 / 2 ^ 52)) = Infty False"
    then show ?thesis using m(1) by (simp add: scale2D_def extent_value)
  next
    assume "\<exists>y. round64 False (m * (5404319552844595 / 2 ^ 52)) = Num False y \<and> 1 \<le> y \<and> y < 2 ^ 1024"
    then obtain y where y: "maxVal2D [a0, a1] [b0, b1] = Num False y" "1 \<le> y" "y < 2 ^ 1024"
      using m(1) by auto
    from scale_from_finite[OF y(2,3)] obtain z where
      "fdiv (Num False 130) (Num False y) = Num False z" "0 < z" "z \<le> 130" by blast
    then show ?thesis using y(1) by (simp add: scale2D_def extent_value)
  qed
qed

lemma maxVal2D_bounded_inputs:
  assumes "isFinite a0" "isFinite a1" "isFinite b0" "isFinite b1"
    and "\<forall>v \<in> {a0, a1, b0, b1}. val (Math_abs v) \<le> 2 ^ 1023"
  shows "isFinite (maxVal2D [a0, a1] [b0, b1])"
proof -
  from maxVal2D_shape[OF assms(1-4)] obtain m where
    m: "maxVal2D [a0, a1] [b0, b1] = round64 False (m * (5404319552844595 / 2 ^ 52))" "1 \<le> m"
       "m = Max {val (Math_abs a0), val (Math_abs a1), val (Math_abs b0), val (Math_abs b1), 1}"
    by blast
  have "m \<le> 2 ^ 1023" unfolding m(3) using assms(5) by simp
  from padded_finite[OF m(2) this] show ?thesis using m(1) by auto
qed

lemma origin_at_center:
  assumes "scale2D vecA vecB = Num False z"
  shows "getCoord vecA vecB (Num False 0) (Num False 0) = \<lparr>X = center2D, Y = center2D\<rparr>"
  using assms by (simp add: getCoord_def center2D_value round64_zero round64_numeral fsub_def)

lemma MAX_VALUE_double: "double (Num False ((2 ^ 53 - 1) * 2 ^ 971))"
  using round64_exact[of "2 ^ 53 - 1" 971 False] by (simp add: power_int_def)

lemma scale2D_MAX_VALUE:
  "scale2D [Num False ((2 ^ 53 - 1) * 2 ^ 971), Num False 0] [Num False 0, Num False 0] = Num False 0"
proof -
  have "round64 False ((2 ^ 53 - 1) * 2 ^ 971 * (5404319552844595 / 2 ^ 52)) = Infty False"
    by (rule round64_overflow) simp
  then have "maxVal2D [Num False ((2 ^ 53 - 1) * 2 ^ 971), Num False 0] [Num False 0, Num False 0] = Infty False"
    using literal_1_2 by (simp add: maxVal2D_def at_index_def Math_max_def)
  then show ?thesis by (simp add: scale2D_def extent_value)
qed



text \<open>
  Claim C9 (amended). For two-dimensional vectors of finite numbers the 2D projector
  maps a point \<open>(x, y)\<close> to \<open>(center + x * scale, center - y * scale)\<close>, with
  \<open>center = 150\<close>, the origin at the centre of the canvas and the Y axis flipped, where
  \<open>scale = (center - 20) / maxVal\<close> and \<open>maxVal\<close> is \<open>1.2\<close> times the maximum of the
  absolute values of the four components and 1. With the floor of 1 inside the maximum,
  \<open>scale\<close> is finite, not negative and at most 130, near-zero vectors included; it is
  positive exactly when \<open>maxVal\<close> is finite, which holds whenever every component is at
  most \<open>2 ^ 1023\<close> in absolute value.
\<close>

theorem getCoord_scale:
  "isFinite a0 \<and> isFinite a1 \<and> isFinite b0 \<and> isFinite b1 \<longrightarrow>
     getCoord [a0, a1] [b0, b1] x y =
       \<lparr>X = fadd center2D (fmul x (scale2D [a0, a1] [b0, b1])),
        Y = fsub center2D (fmul y (scale2D [a0, a1] [b0, b1]))\<rparr>
     \<and> center2D = Num False 150
     \<and> getCoord [a0, a1] [b0, b1] (Num False 0) (Num False 0) = \<lparr>X = center2D, Y = center2D\<rparr>
     \<and> scale2D [a0, a1] [b0, b1] =
         fdiv (fsub center2D (Num False 20)) (maxVal2D [a0, a1] [b0, b1])
     \<and> maxVal2D [a0, a1] [b0, b1] =
         fmul (Num False (Max {val (Math_abs a0), val (Math_abs a1),
                               val (Math_abs b0), val (Math_abs b1), 1}))
              (round64 False (12 / 10))
     \<and> (\<exists>z. scale2D [a0, a1] [b0, b1] = Num False z \<and> 0 \<le> z \<and> z \<le> 130
            \<and> (0 < z) = isFinite (maxVal2D [a0, a1] [b0, b1]))
     \<and> ((\<forall>v \<in> {a0, a1, b0, b1}. val (Math_abs v) \<le> 2 ^ 1023)
          \<longrightarrow> isFinite (maxVal2D [a0, a1] [b0, b1]))"
  (is "?finite \<longrightarrow> ?coord \<and> ?center \<and> ?origin \<and> ?scale \<and> ?maxVal \<and> ?range \<and> ?bounded")
proof
  assume ?finite
  then have fin: "isFinite a0" "isFinite a1" "isFinite b0" "isFinite b1" by simp_all
  from scale2D_finite_inputs[OF fin] have range: ?range .
  then obtain z where z: "scale2D [a0, a1] [b0, b1] = Num False z" by blast
  have coord: ?coord by (simp add: getCoord_def)
  have center: ?center by (rule center2D_value)
  have origin: ?origin by (rule origin_at_center[OF z])
  have scale: ?scale by (simp add: scale2D_def)
  obtain m where m: "maxVal2D [a0, a1] [b0, b1] = round64 False (m * (5404319552844595 / 2 ^ 52))"
    "m = Max {val (Math_abs a0), val (Math_abs a1), val (Math_abs b0), val (Math_abs b1), 1}"
    using maxVal2D_shape[OF fin] by blast
  have maxVal: ?maxVal unfolding literal_1_2 fmul.simps m(2)[symmetric] using m(1) by simp
  have bounded: ?bounded using maxVal2D_bounded_inputs[OF fin] by blast
  show "?coord \<and> ?center \<and> ?origin \<and> ?scale \<and> ?maxVal \<and> ?range \<and> ?bounded"
    by (intro conjI coord center origin scale maxVal range bounded)
qed


theorem getCoord_scale_witness:
  "isFinite (Num False 2) \<and> isFinite (Num False 1) \<and> isFinite (Num False 3)
   \<and> val (Math_abs (Num False 3)) \<le> 2 ^ 1023
   \<and> isFinite (maxVal2D [Num False 2, Num False 1] [Num False 1, Num False 3])
   \<and> (\<exists>z. scale2D [Num False 2, Num False 1] [Num False 1, Num False 3] = Num False z
          \<and> 0 < z \<and> z \<le> 130)"
proof -
  have fin: "isFinite (Num False 2) \<and> isFinite (Num False 1) \<and> isFinite (Num False 1)
      \<and> isFinite (Num False 3)"
    by simp
  have small: "\<forall>v \<in> {Num False 2, Num False 1, Num False 1, Num False 3}.
      val (Math_abs v) \<le> 2 ^ 1023"
    by simp
  note c9 = getCoord_scale[of "Num False 2" "Num False 1" "Num False 1" "Num False 3"
      "Num False 0" "Num False 0", THEN mp, OF fin]
  have finite: "isFinite (maxVal2D [Num False 2, Num False 1] [Num False 1, Num False 3])"
    using c9 small by blast
  moreover have "\<exists>z. scale2D [Num False 2, Num False 1] [Num False 1, Num False 3] = Num False z
          \<and> 0 < z \<and> z \<le> 130"
    using c9 finite by blast
  ultimately show ?thesis by simp
qed


text \<open>
  Claim C9 as first stated promises a positive \<open>scale\<close> for every pair of finite
  vectors. At the finite vector \<open>[Number.MAX_VALUE, 0]\<close> the padding by 1.2 overflows,
  \<open>maxVal\<close> is \<open>+\<infinity>\<close> and \<open>scale\<close> is 0.
\<close>

theorem scale2D_zero_at_MAX_VALUE:
  "double (Num False ((2 ^ 53 - 1) * 2 ^ 971)) \<and> isFinite (Num False ((2 ^ 53 - 1) * 2 ^ 971))
   \<and> double (Num False 0) \<and> isFinite (Num False 0)
   \<and> scale2D [Num False ((2 ^ 53 - 1) * 2 ^ 971), Num False 0] [Num False 0, Num False 0] =
       Num False 0"
  using MAX_VALUE_double scale2D_MAX_VALUE by (simp add: round64_zero)

section \<open>The rotation state\<close>

text \<open>
  A difference of finite coordinates, its half and its sum with a finite pitch are
  never \<open>NaN\<close>, and the clamp takes everything but \<open>NaN\<close> into \<open>[-90, 90]\<close>; so every
  handler keeps the invariant.
\<close>

lemma fsub_finite:
  assumes "isFinite a" "isFinite b"
  shows "\<not> isNaN (fsub a b)"
proof -
  obtain s x where a: "a = Num s x" using assms(1) by (cases a) auto
  obtain t y where b: "b = Num t y" using assms(2) by (cases b) auto
  show ?thesis
    by (cases "round64 (val (Num s x) + val (Num (\<not> t) y) < 0) \<bar>val (Num s x) + val (Num (\<not> t) y)\<bar>")
       (auto simp: a b fsub_def Let_def round64_not_NaN)
qed

lemma fmul_half_not_NaN:
  assumes "\<not> isNaN d"
  shows "\<not> isNaN (fmul d (Num False (1 / 2)))"
proof (cases d)
  case (Num s x)
  then show ?thesis
    by (cases "round64 (s \<noteq> False) (x * (1 / 2))") (auto simp: round64_not_NaN)
qed (use assms in auto)

lemma fadd_finite_not_NaN:
  assumes "isFinite p" "\<not> isNaN e"
  shows "\<not> isNaN (fadd p e)"
proof -
  obtain s x where p: "p = Num s x" using assms(1) by (cases p) auto
  show ?thesis
  proof (cases e)
    case (Num t y)
    then show ?thesis
      by (cases "round64 (val (Num s x) + val (Num t y) < 0) \<bar>val (Num s x) + val (Num t y)\<bar>")
         (auto simp: p Let_def round64_not_NaN)
  qed (use assms p in auto)
qed

lemma clamp_90:
  assumes "\<not> isNaN v"
  shows "isFinite (Math_max [Num True 90, Math_min [Num False 90, v]])
    \<and> fle (Num True 90) (Math_max [Num True 90, Math_min [Num False 90, v]])
    \<and> fle (Math_max [Num True 90, Math_min [Num False 90, v]]) (Num False 90)"
proof (cases v)
  case NaN
  then show ?thesis using assms by simp
next
  case (Infty s)
  then show ?thesis by (cases s) (simp_all add: Math_max_def Math_min_def fle_def)
next
  case (Num s a)
  then show ?thesis by (auto simp: Math_max_def Math_min_def fle_def)
qed

lemma view_ok_initial: "view_ok initial_view"
  by (simp add: view_ok_def initial_view_def fle_def)

lemma view_ok_handle:
  assumes "view_ok st" "finite_coordinates ev"
  shows "view_ok (handle st ev)"
proof (cases ev)
  case (MouseDown cx cy)
  then show ?thesis using assms by (simp add: view_ok_def handleMouseDown_def)
next
  case (MouseMove cx cy)
  show ?thesis
  proof (cases "isDragging st")
    case False
    then show ?thesis using assms MouseMove by (simp add: handleMouseMove_def)
  next
    case True
    have "\<not> isNaN (fsub cy (Y (lastMousePos st)))"
      using assms MouseMove by (intro fsub_finite) (simp_all add: view_ok_def)
    then have "\<not> isNaN (fmul (fsub cy (Y (lastMousePos st))) (Num False (1 / 2)))"
      by (rule fmul_half_not_NaN)
    then have "\<not> isNaN (fadd (X (rotation st)) (fmul (fsub cy (Y (lastMousePos st))) (Num False (1 / 2))))"
      using assms(1) by (intro fadd_finite_not_NaN) (simp_all add: view_ok_def)
    from clamp_90[OF this] show ?thesis
      using assms MouseMove True by (simp add: view_ok_def handleMouseMove_def Let_def)
  qed
next
  case MouseUp
  then show ?thesis using assms by (simp add: view_ok_def handleMouseUp_def)
next
  case MouseLeave
  then show ?thesis using assms by (simp add: view_ok_def handleMouseUp_def)
qed

lemma reachable_view_ok: "reachable st \<Longrightarrow> view_ok st"
  by (induction rule: reachable.induct) (auto intro: view_ok_initial view_ok_handle)


lemma far_drag_reachable: "reachable far_drag"
  unfolding far_drag_def by (intro reachable.intros) simp_all

lemma far_drag_yaw: "Y (rotation far_drag) = Infty False"
proof -
  have "round64 False (2 ^ 1023 + 2 ^ 1023) = Infty False"
    by (rule round64_overflow) simp
  then show ?thesis
    by (simp add: far_drag_def initial_view_def handleMouseDown_def handleMouseMove_def
        fsub_def Let_def)
qed

lemma yaw_exceeds:
  assumes "isFinite bound"
  shows "\<exists>st. reachable st \<and> flt bound (Y (rotation st))"
proof -
  have "flt bound (Infty False)" using assms by (cases bound) simp_all
  then show ?thesis using far_drag_reachable far_drag_yaw by auto
qed

lemma steep_drag_reachable: "reachable steep_drag"
  unfolding steep_drag_def by (intro reachable.intros) simp_all

lemma steep_drag_pitch: "X (rotation steep_drag) = Num False 90"
proof -
  have a: "round64 False (400 * (1 / 2)) = Num False 200"
    by (simp add: round64_numeral)
  show ?thesis
    using a
    by (simp add: steep_drag_def initial_view_def handleMouseDown_def handleMouseMove_def
        fsub_def Let_def round64_numeral Math_max_def Math_min_def)
qed


text \<open>
  Claim C8. The pitch starts at \<open>-20\<close>; an update by a mouse move while dragging sets it
  to \<open>prev.x + deltaY * 0.5\<close> clamped to \<open>[-90, 90]\<close>, and the clamp of anything but
  \<open>NaN\<close> is a number in \<open>[-90, 90]\<close>; in every state reachable through mouse events the
  pitch is a number in \<open>[-90, 90]\<close>. The yaw is not bounded: whatever the finite bound,
  some reachable state has a yaw above it.
\<close>

theorem pitch_invariant:
  "X (rotation initial_view) = Num True 20
   \<and> (isDragging st \<longrightarrow>
        X (rotation (handleMouseMove clientX clientY st)) =
          Math_max [Num True 90,
            Math_min [Num False 90,
              fadd (X (rotation st)) (fmul (fsub clientY (Y (lastMousePos st))) (Num False (1 / 2)))]])
   \<and> (\<not> isNaN v \<longrightarrow>
        isFinite (Math_max [Num True 90, Math_min [Num False 90, v]])
        \<and> fle (Num True 90) (Math_max [Num True 90, Math_min [Num False 90, v]])
        \<and> fle (Math_max [Num True 90, Math_min [Num False 90, v]]) (Num False 90))
   \<and> (reachable st \<longrightarrow>
        isFinite (X (rotation st)) \<and> fle (Num True 90) (X (rotation st))
        \<and> fle (X (rotation st)) (Num False 90))
   \<and> (isFinite bound \<longrightarrow> (\<exists>st'. reachable st' \<and> flt bound (Y (rotation st'))))"
  (is "?start \<and> ?update \<and> ?clamp \<and> ?invariant \<and> ?yaw")
proof -
  have start: ?start by (simp add: initial_view_def)
  have update: ?update by (simp add: handleMouseMove_def Let_def)
  have clamp: ?clamp using clamp_90[of v] by blast
  have invariant: ?invariant using reachable_view_ok[of st] by (simp add: view_ok_def)
  have yaw: ?yaw using yaw_exceeds[of bound] by blast
  show ?thesis by (intro conjI start update clamp invariant yaw)
qed

theorem pitch_invariant_witness:
  "reachable steep_drag \<and> isDragging steep_drag \<and> X (rotation steep_drag) = Num False 90
   \<and> fle (Num True 90) (X (rotation steep_drag)) \<and> fle (X (rotation steep_drag)) (Num False 90)
   \<and> isFinite (Num False 1000)
   \<and> (\<exists>st'. reachable st' \<and> flt (Num False 1000) (Y (rotation st')))"
proof -
  have d: "isDragging steep_drag"
    by (simp add: steep_drag_def handleMouseDown_def handleMouseMove_def Let_def)
  show ?thesis
    using pitch_invariant[of steep_drag "Num False 0" "Num False 0" "Num False 0" "Num False 1000"]
      steep_drag_reachable steep_drag_pitch d
    by simp
qed

section \<open>The parser computes its contract\<close>

text \<open>
  The pieces \<^verbatim>\<open>split\<close> returns are the tokens of the input, with an empty piece before
  them when the input starts with a separator and one after them when it ends with
  one (and a single empty piece for the empty input). An empty piece parses to \<open>NaN\<close>
  and is filtered out, and \<^verbatim>\<open>trim\<close> changes no token; so the numbers kept from the
  pieces are the numbers kept from the tokens.
\<close>

lemma dropWhile_none: "\<forall>x \<in> set xs. \<not> P x \<Longrightarrow> dropWhile P xs = xs"
  by (cases xs) simp_all

lemma takeWhile_all: "\<forall>x \<in> set xs. P x \<Longrightarrow> takeWhile P xs = xs"
  by (induction xs) simp_all

lemma dropWhile_all: "\<forall>x \<in> set xs. P x \<Longrightarrow> dropWhile P xs = []"
  by (induction xs) simp_all

lemma split_from_no_separator:
  "\<forall>x \<in> set cs. \<not> isSeparator x \<Longrightarrow> split_from piece cs = [piece @ cs]"
  by (induction cs arbitrary: piece) (simp_all add: split_from.simps)

lemma split_from_run:
  assumes "\<forall>x \<in> set w. \<not> isSeparator x" "isSeparator d"
  shows "split_from piece (w @ d # ds) = (piece @ w) # split_from [] (dropWhile isSeparator ds)"
  using assms(1) by (induction w arbitrary: piece) (simp_all add: split_from.simps assms(2))

lemma parseFloat_empty: "parseFloat (trim []) = NaN"
  by (simp add: parseFloat_def trim_def trimStart_def)

lemma tokens_spec_single:
  assumes "cs \<noteq> []" "\<forall>c \<in> set cs. \<not> isSeparator c"
  shows "tokens_spec cs = [cs]"
proof -
  obtain c r where cs: "cs = c # r" using assms(1) by (cases cs) auto
  have r: "\<forall>d \<in> set r. \<not> isSeparator d" and c: "\<not> isSeparator c" using assms(2) cs by simp_all
  have "tokens_spec (c # r) =
      (c # takeWhile (\<lambda>d. \<not> isSeparator d) r) # tokens_spec (dropWhile (\<lambda>d. \<not> isSeparator d) r)"
    using c by (simp only: tokens_spec.simps if_False)
  also have "\<dots> = [c # r]"
    by (simp only: takeWhile_all[OF r] dropWhile_all[OF r] tokens_spec.simps(1))
  finally show ?thesis by (simp only: cs)
qed

lemma kept_empty_piece: "kept ([] # pieces) = kept pieces"
  by (simp add: parseFloat_empty)

lemma split_from_skip:
  assumes "isSeparator c"
  shows "kept (split_from [] (c # cs)) = kept (split_from [] cs)"
proof -
  have a: "split_from [] (c # cs) = [] # split_from [] (dropWhile isSeparator cs)"
    using assms by (simp add: split_from.simps)
  show ?thesis
  proof (cases cs)
    case Nil
    then show ?thesis unfolding a by (simp add: split_from.simps parseFloat_empty)
  next
    case (Cons d ds)
    show ?thesis
    proof (cases "isSeparator d")
      case True
      then have "split_from [] cs = [] # split_from [] (dropWhile isSeparator cs)"
        unfolding Cons by (simp add: split_from.simps)
      then show ?thesis unfolding a by (simp only: kept_empty_piece)
    next
      case False
      then have "dropWhile isSeparator cs = cs" unfolding Cons by simp
      then show ?thesis unfolding a by (simp only: kept_empty_piece)
    qed
  qed
qed

lemma split_tokens: "kept (split_from [] cs) = kept (tokens_spec cs)"
proof (induction cs rule: tokens_spec.induct)
  case 1
  show ?case by (simp add: split_from.simps tokens_spec.simps parseFloat_empty)
next
  case (2 c cs)
  show ?case
  proof (cases "isSeparator c")
    case True
    have "tokens_spec (c # cs) = tokens_spec cs"
      using True by (simp only: tokens_spec.simps if_True)
    then show ?thesis
      using 2(1)[OF True] split_from_skip[OF True, of cs] by (simp only:)
  next
    case False
    let ?w = "takeWhile (\<lambda>d. \<not> isSeparator d) cs" and ?r = "dropWhile (\<lambda>d. \<not> isSeparator d) cs"
    have cs: "cs = ?w @ ?r" by simp
    have w: "\<forall>x \<in> set (c # ?w). \<not> isSeparator x"
      using False by (auto dest: set_takeWhileD)
    have tok: "tokens_spec (c # cs) = (c # ?w) # tokens_spec ?r"
      using False by (simp only: tokens_spec.simps if_False)
    show ?thesis
    proof (cases ?r)
      case Nil
      then have all: "\<forall>x \<in> set (c # cs). \<not> isSeparator x" using w cs by (metis append_Nil2)
      have "split_from [] (c # cs) = [c # cs]"
        using split_from_no_separator[OF all, of "[]"] by simp
      moreover have "tokens_spec (c # cs) = [c # cs]"
        using tokens_spec_single[OF _ all] by simp
      ultimately show ?thesis by (simp only:)
    next
      case (Cons d ds)
      then have d: "isSeparator d"
        by (metis hd_dropWhile list.sel(1) list.simps(3))
      have "c # cs = (c # ?w) @ d # ds" using cs Cons by (metis append_Cons)
      then have a: "split_from [] (c # cs) = (c # ?w) # split_from [] (dropWhile isSeparator ds)"
        using split_from_run[OF w d, of "[]" ds] by simp
      have b: "split_from [] (d # ds) = [] # split_from [] (dropWhile isSeparator ds)"
        using d by (simp add: split_from.simps)
      have "kept (split_from [] (dropWhile isSeparator ds)) = kept (tokens_spec ?r)"
        using 2(2)[OF False] unfolding Cons b by (simp only: kept_empty_piece)
      then show ?thesis unfolding a tok by simp
    qed
  qed
qed

lemma tokens_spec_separator_free:
  "t \<in> set (tokens_spec cs) \<Longrightarrow> t \<noteq> [] \<and> (\<forall>c \<in> set t. \<not> isSeparator c)"
proof (induction cs rule: tokens_spec.induct)
  case 1
  then show ?case by (simp add: tokens_spec.simps)
next
  case (2 c cs)
  show ?case
  proof (cases "isSeparator c")
    case True
    then have "tokens_spec (c # cs) = tokens_spec cs"
      by (simp only: tokens_spec.simps if_True)
    then show ?thesis using 2(1)[OF True] 2(3) by simp
  next
    case False
    let ?w = "takeWhile (\<lambda>d. \<not> isSeparator d) cs" and ?r = "dropWhile (\<lambda>d. \<not> isSeparator d) cs"
    have "tokens_spec (c # cs) = (c # ?w) # tokens_spec ?r"
      using False by (simp only: tokens_spec.simps if_False)
    then have "t = c # ?w \<or> t \<in> set (tokens_spec ?r)" using 2(3) by simp
    then show ?thesis
    proof
      assume t: "t = c # ?w"
      have "\<forall>x \<in> set ?w. \<not> isSeparator x" by (auto dest: set_takeWhileD)
      then show ?thesis using False t by simp
    next
      assume "t \<in> set (tokens_spec ?r)"
      then show ?thesis by (rule 2(2)[OF False])
    qed
  qed
qed

lemma trim_no_whitespace:
  assumes "\<forall>c \<in> set t. \<not> isWhiteSpace c"
  shows "trim t = t"
proof -
  have "\<forall>c \<in> set (rev t). \<not> isWhiteSpace c" using assms by simp
  then have "dropWhile isWhiteSpace (rev t) = rev t" by (rule dropWhile_none)
  moreover have "dropWhile isWhiteSpace t = t" using assms by (rule dropWhile_none)
  ultimately show ?thesis by (simp add: trim_def)
qed

lemma trim_token:
  assumes "t \<in> set (tokens_spec cs)"
  shows "trim t = t"
  using tokens_spec_separator_free[OF assms] by (intro trim_no_whitespace) (auto simp: isSeparator_def)

lemma parseVectorString_tokens:
  "parseVectorString input = filter (\<lambda>n. \<not> isNaN n) (map parseFloat (tokens_spec input))"
proof -
  have h: "map (\<lambda>s. parseFloat (trim s)) (tokens_spec input) = map parseFloat (tokens_spec input)"
    by (rule map_cong[OF refl]) (simp only: trim_token)
  show ?thesis unfolding parseVectorString_def split_def split_tokens h ..
qed

lemma tokens_spec_append:
  assumes "isSeparator s"
  shows "tokens_spec (u @ s # v) = tokens_spec u @ tokens_spec v"
proof (induction u rule: tokens_spec.induct)
  case 1
  show ?case using assms by (simp add: tokens_spec.simps)
next
  case (2 c cs)
  show ?case
  proof (cases "isSeparator c")
    case True
    then show ?thesis using 2(1) by (simp add: tokens_spec.simps)
  next
    case False
    let ?w = "takeWhile (\<lambda>d. \<not> isSeparator d) cs" and ?r = "dropWhile (\<lambda>d. \<not> isSeparator d) cs"
    have tw: "takeWhile (\<lambda>d. \<not> isSeparator d) (cs @ s # v) = ?w"
      using assms by (induction cs) simp_all
    have dw: "dropWhile (\<lambda>d. \<not> isSeparator d) (cs @ s # v) = ?r @ s # v"
      using assms by (induction cs) simp_all
    have "tokens_spec ((c # cs) @ s # v) = (c # ?w) # tokens_spec (?r @ s # v)"
      using False by (simp add: tokens_spec.simps tw dw)
    also have "\<dots> = (c # ?w) # tokens_spec ?r @ tokens_spec v"
      using 2(2)[OF False] by simp
    also have "\<dots> = tokens_spec (c # cs) @ tokens_spec v"
      using False by (simp add: tokens_spec.simps)
    finally show ?thesis .
  qed
qed

lemma isNaN_round64: "isNaN (round64 s x) = False"
  by (cases "round64 s x") (simp_all add: round64_not_NaN)

lemma isNaN_strUnsignedDecimalLiteral:
  "isNaN (strUnsignedDecimalLiteral s u) = (\<not> numeric_start u)"
proof (cases "take 8 u = utf16 ''Infinity''")
  case True
  then show ?thesis by (simp add: strUnsignedDecimalLiteral_def numeric_start_def)
next
  case False
  show ?thesis
  proof (cases u)
    case Nil
    then show ?thesis
      by (simp add: strUnsignedDecimalLiteral_def numeric_start_def utf16_def)
  next
    case (Cons c r)
    show ?thesis
    proof (cases "isDigit c")
      case True
      then show ?thesis using False Cons
        by (simp add: strUnsignedDecimalLiteral_def numeric_start_def Let_def isNaN_round64)
    next
      case nd: False
      show ?thesis
      proof (cases r)
        case Nil
        then show ?thesis using False Cons nd
          by (simp add: strUnsignedDecimalLiteral_def numeric_start_def Let_def isNaN_round64)
      next
        case (Cons d r')
        then show ?thesis using False \<open>u = c # r\<close> nd
          by (cases "isDigit d")
             (simp_all add: strUnsignedDecimalLiteral_def numeric_start_def Let_def isNaN_round64)
      qed
    qed
  qed
qed

lemma isNaN_parseFloat: "isNaN (parseFloat t) = (\<not> has_numeric_prefix t)"
proof (cases "trimStart t")
  case Nil
  then show ?thesis
    by (simp add: parseFloat_def has_numeric_prefix_def unsigned_part_def numeric_start_def utf16_def)
next
  case (Cons c r)
  then show ?thesis
    by (simp add: parseFloat_def has_numeric_prefix_def unsigned_part_def
        isNaN_strUnsignedDecimalLiteral)
qed

lemmas parse_simps =
  parseVectorString_def split_def split_from.simps trim_def trimStart_def parseFloat_def
  strUnsignedDecimalLiteral_def exponentPart_def digitsValue_def digitValue_def isDigit_def
  isSeparator_def isWhiteSpace_def utf16_def Let_def round64_numeral round64_one round64_zero

lemma parse_2_1: "parseVectorString (utf16 ''2, 1'') = [Num False 2, Num False 1]"
  by (simp add: parse_simps)

lemma parse_1_2_3: "parseVectorString (utf16 ''1 2  3'') = [Num False 1, Num False 2, Num False 3]"
  by (simp add: parse_simps)

lemma parse_a_2_b: "parseVectorString (utf16 ''a, 2, b'') = [Num False 2]"
  by (simp add: parse_simps)

lemma parse_empty: "parseVectorString [] = []"
  by (simp add: parse_simps)

lemma parse_2px: "parseVectorString (utf16 ''2px'') = [Num False 2]"
  by (simp add: parse_simps)

lemma tokens_2px: "tokens_spec (utf16 ''2px'') = [utf16 ''2px'']"
  by (rule tokens_spec_single) (simp_all add: utf16_def isSeparator_def isWhiteSpace_def)

lemma parseFloat_2px: "parseFloat (utf16 ''2px'') = Num False 2"
  by (simp add: parse_simps)

lemma trailing_garbage_ignored:
  assumes ds: "ds \<noteq> []" "\<forall>c \<in> set ds. isDigit c"
    and r: "r = [] \<or> \<not> (isDigit (hd r) \<or> hd r = of_char CHR ''.'' \<or> hd r = of_char CHR ''e''
                \<or> hd r = of_char CHR ''E'')"
  shows "parseFloat (ds @ r) = round64 False (real (digitsValue ds))"
proof -
  obtain c cs where dcs: "ds = c # cs" using ds(1) by (cases ds) auto
  have c: "isDigit c" using ds(2) dcs by simp
  have "\<not> (0x2000 \<le> c)"
  proof
    assume "0x2000 \<le> c"
    moreover have "c \<le> 0x39" using c by (simp add: isDigit_def)
    ultimately have "(0x2000 :: code_unit) \<le> 0x39" by (rule order_trans)
    then show False by simp
  qed
  then have nows: "\<not> isWhiteSpace c" using c by (auto simp: isDigit_def isWhiteSpace_def)
  have nosign: "c \<noteq> of_char CHR ''+''" "c \<noteq> of_char CHR ''-''"
    using c by (auto simp: isDigit_def)
  have noinf: "take 8 (ds @ r) \<noteq> utf16 ''Infinity''"
    using c dcs by (auto simp: utf16_def isDigit_def)
  have ex: "exponentPart r = 0" using r by (cases r) (auto simp: exponentPart_def)
  have "parseFloat (ds @ r) = strUnsignedDecimalLiteral False (ds @ r)"
    using nows nosign by (simp add: parseFloat_def trimStart_def dcs)
  also have "\<dots> = round64 False (real (digitsValue ds))"
  proof (cases r)
    case Nil
    then show ?thesis
      using noinf ds
      by (simp add: strUnsignedDecimalLiteral_def Let_def digitsValue_def takeWhile_all
          dropWhile_all exponentPart_def)
  next
    case (Cons d r')
    then have "d \<noteq> of_char CHR ''.''" "\<not> isDigit d" "exponentPart (d # r') = 0"
      using r ex by auto
    then show ?thesis
      using noinf ds Cons
      by (simp add: strUnsignedDecimalLiteral_def Let_def digitsValue_def)
  qed
  finally show ?thesis .
qed

lemma parseVectorString_not_NaN: "n \<in> set (parseVectorString input) \<Longrightarrow> \<not> isNaN n"
  by (simp add: parseVectorString_def)


text \<open>
  Claim C5. For every input string, \<^verbatim>\<open>parseVectorString\<close> returns, in order, the numbers
  \<^verbatim>\<open>parseFloat\<close> gives for the tokens of the input that parse (whose result is not
  \<open>NaN\<close>), the tokens being the maximal runs of characters between runs of white space
  and commas: every token is a non-empty run with no separator, a separator splits
  the tokens of what is before it from the tokens of what is after it, and a non-empty
  string with no separator is one token. No result is \<open>NaN\<close>. The empty input, and an
  input none of whose tokens parses, yield the empty sequence. Parsing \<^verbatim>\<open>"2, 1"\<close> yields
  \<open>[2, 1]\<close>, \<^verbatim>\<open>"1 2  3"\<close> yields \<open>[1, 2, 3]\<close> and \<^verbatim>\<open>"a, 2, b"\<close> yields \<open>[2]\<close>.
\<close>

theorem parseVectorString_contract:
  "parseVectorString input = filter (\<lambda>n. \<not> isNaN n) (map parseFloat (tokens_spec input))
   \<and> (\<forall>t \<in> set (tokens_spec input). t \<noteq> [] \<and> (\<forall>c \<in> set t. \<not> isSeparator c))
   \<and> (isSeparator s \<longrightarrow> tokens_spec (u @ s # v) = tokens_spec u @ tokens_spec v)
   \<and> (w \<noteq> [] \<and> (\<forall>c \<in> set w. \<not> isSeparator c) \<longrightarrow> tokens_spec w = [w])
   \<and> tokens_spec [] = []
   \<and> (\<forall>n \<in> set (parseVectorString input). \<not> isNaN n)
   \<and> parseVectorString [] = []
   \<and> ((\<forall>t \<in> set (tokens_spec input). isNaN (parseFloat t)) \<longrightarrow> parseVectorString input = [])
   \<and> parseVectorString (utf16 ''2, 1'') = [Num False 2, Num False 1]
   \<and> parseVectorString (utf16 ''1 2  3'') = [Num False 1, Num False 2, Num False 3]
   \<and> parseVectorString (utf16 ''a, 2, b'') = [Num False 2]"
  (is "?tokens \<and> ?runs \<and> ?append \<and> ?single \<and> ?nil \<and> ?valid \<and> ?empty \<and> ?invalid \<and> ?e1 \<and> ?e2 \<and> ?e3")
proof -
  have tokens: ?tokens by (rule parseVectorString_tokens)
  have runs: ?runs using tokens_spec_separator_free by blast
  have append: ?append using tokens_spec_append by blast
  have single: ?single using tokens_spec_single by blast
  have nil: ?nil by (simp add: tokens_spec.simps)
  have valid: ?valid using parseVectorString_not_NaN by blast
  have empty: ?empty by (rule parse_empty)
  have invalid: ?invalid unfolding parseVectorString_tokens by (simp add: filter_empty_conv)
  show ?thesis
    by (intro conjI tokens runs append single nil valid empty invalid parse_2_1 parse_1_2_3 parse_a_2_b)
qed


theorem parseVectorString_contract_witness:
  "isSeparator (of_char CHR '','')
   \<and> tokens_spec (utf16 ''x,y'') = [utf16 ''x'', utf16 ''y'']
   \<and> isNaN (parseFloat (utf16 ''x'')) \<and> isNaN (parseFloat (utf16 ''y''))
   \<and> parseVectorString (utf16 ''x,y'') = []"
proof -
  note c5 = parseVectorString_contract[of "utf16 ''x,y''" "of_char CHR '',''" "utf16 ''x''"
      "utf16 ''y''" "utf16 ''x''"]
  have sep: "isSeparator (of_char CHR '','')" by (simp add: isSeparator_def)
  have x: "tokens_spec (utf16 ''x'') = [utf16 ''x'']"
    using c5 by (simp add: utf16_def isSeparator_def isWhiteSpace_def)
  have y: "tokens_spec (utf16 ''y'') = [utf16 ''y'']"
    using parseVectorString_contract[of "[]" "of_char CHR '',''" "[]" "[]" "utf16 ''y''"]
    by (simp add: utf16_def isSeparator_def isWhiteSpace_def)
  have "tokens_spec (utf16 ''x'' @ of_char CHR '','' # utf16 ''y'') =
      tokens_spec (utf16 ''x'') @ tokens_spec (utf16 ''y'')"
    using c5 sep by blast
  then have toks: "tokens_spec (utf16 ''x,y'') = [utf16 ''x'', utf16 ''y'']"
    using x y by (simp add: utf16_def)
  have nx: "isNaN (parseFloat (utf16 ''x''))" and ny: "isNaN (parseFloat (utf16 ''y''))"
    by (simp_all add: parse_simps)
  have "\<forall>t \<in> set (tokens_spec (utf16 ''x,y'')). isNaN (parseFloat t)"
    unfolding toks using nx ny by simp
  then have "parseVectorString (utf16 ''x,y'') = []" using c5 by blast
  then show ?thesis using sep toks nx ny by simp
qed


text \<open>
  Claim C10. A token that starts with a number and goes on with other characters is
  not dropped: \<^verbatim>\<open>"2px"\<close> is one token and \<^verbatim>\<open>parseVectorString\<close> returns \<open>[2]\<close> for it,
  the value of its numeric prefix. In general decimal digits followed by anything
  that does not continue the number parse to the value of the digits, and a token is
  dropped exactly when it has no numeric prefix.
\<close>

theorem parseFloat_numeric_prefix:
  "parseVectorString (utf16 ''2px'') = [Num False 2]
   \<and> tokens_spec (utf16 ''2px'') = [utf16 ''2px'']
   \<and> parseFloat (utf16 ''2px'') = parseFloat (utf16 ''2'')
   \<and> (ds \<noteq> [] \<and> (\<forall>c \<in> set ds. isDigit c)
        \<and> (r = [] \<or> \<not> (isDigit (hd r) \<or> hd r = of_char CHR ''.'' \<or> hd r = of_char CHR ''e''
                \<or> hd r = of_char CHR ''E''))
      \<longrightarrow> parseFloat (ds @ r) = round64 False (real (digitsValue ds)))
   \<and> isNaN (parseFloat t) = (\<not> has_numeric_prefix t)"
proof -
  have "parseFloat (utf16 ''2px'') = parseFloat (utf16 ''2'')" by (simp add: parse_simps)
  then show ?thesis
    using parse_2px tokens_2px trailing_garbage_ignored[of ds r] isNaN_parseFloat[of t]
    by blast
qed


theorem parseFloat_numeric_prefix_witness:
  "utf16 ''12'' \<noteq> [] \<and> isDigit (of_char CHR ''1'') \<and> isDigit (of_char CHR ''2'')
   \<and> \<not> isDigit (hd (utf16 ''px''))
   \<and> parseFloat (utf16 ''12px'') = Num False 12"
proof -
  have "parseFloat (utf16 ''12'' @ utf16 ''px'') = round64 False (real (digitsValue (utf16 ''12'')))"
    using parseFloat_numeric_prefix[of "utf16 ''12''" "utf16 ''px''" "[]"]
    by (simp add: utf16_def isDigit_def)
  then have "parseFloat (utf16 ''12px'') = Num False 12"
    by (simp add: utf16_def digitsValue_def digitValue_def round64_numeral)
  then show ?thesis by (simp add: utf16_def isDigit_def)
qed

section \<open>The range of the result\<close>

text \<open>
  The same happens from the text a user types: \<^verbatim>\<open>"1e200"\<close> parses to the binary64 value
  nearest to \<open>10 ^ 200\<close>, whose square overflows.
\<close>

lemma parse_1e200:
  "parseVectorString (utf16 ''1e200'') = [Num False (5883593420661338 * 2 ^ 612)]"
proof -
  have "round64 False (10 ^ 200) = Num False (5883593420661338 * 2 ^ 612)"
    by (rule round64_eval[where k = 664 and m = 5883593420661338])
       (simp_all add: round_half_even_def Let_def)
  then show ?thesis by (simp add: parse_simps)
qed

lemma example_1e200:
  "calculateCosineSimilarity acos_impl (parseVectorString (utf16 ''1e200'')) (parseVectorString (utf16 ''1e200'')) =
     Some \<lparr>dotProduct = Infty False, magnitudeA = Infty False, magnitudeB = Infty False,
           cosineSimilarity = NaN, angleDegrees = NaN, dimensions = 1\<rparr>"
proof -
  have sq: "round64 False (5883593420661338 * 2 ^ 612 * (5883593420661338 * 2 ^ 612)) = Infty False"
    by (rule round64_overflow) simp
  have d: "dot_product_spec [Num False (5883593420661338 * 2 ^ 612)]
      [Num False (5883593420661338 * 2 ^ 612)] = Infty False"
    using sq by (simp add: dot_product_spec_def)
  have a: "magnitude_spec [Num False (5883593420661338 * 2 ^ 612)] = Infty False"
    using sq by (simp add: magnitude_spec_def)
  have c: "Math_max [Num True 1, Math_min [Num False 1, NaN]] = NaN"
    by (rule clamp_NaN)
  show ?thesis
    unfolding parse_1e200
    using d a c by (simp add: calculateCosineSimilarity_spec degrees_spec_def)
qed

text \<open>
  Claim C4. For vectors of finite numbers of the same non-zero length the result
  should have its cosine similarity in \<open>[-1, 1]\<close> and its angle in \<open>[0, 180]\<close>. The
  code does not keep this: at the finite binary64 input \<open>[2 ^ 600]\<close>, \<open>[2 ^ 600]\<close> the
  products overflow to \<open>+\<infinity>\<close>, both magnitudes are \<open>+\<infinity>\<close>, the quotient
  \<open>\<infinity> / \<infinity>\<close> is \<open>NaN\<close>, the clamp lets \<open>NaN\<close> through, and the cosine similarity and
  the angle of the result are both \<open>NaN\<close>; likewise for the vectors parsed from
  \<^verbatim>\<open>"1e200"\<close>.
\<close>

theorem calculateCosineSimilarity_overflow_NaN:
  "double (Num False (2 ^ 600)) \<and> isFinite (Num False (2 ^ 600))
   \<and> calculateCosineSimilarity acos_impl [Num False (2 ^ 600)] [Num False (2 ^ 600)] =
       Some \<lparr>dotProduct = Infty False, magnitudeA = Infty False, magnitudeB = Infty False,
             cosineSimilarity = NaN, angleDegrees = NaN, dimensions = 1\<rparr>
   \<and> list_all isFinite (parseVectorString (utf16 ''1e200''))
   \<and> calculateCosineSimilarity acos_impl (parseVectorString (utf16 ''1e200''))
         (parseVectorString (utf16 ''1e200'')) =
       Some \<lparr>dotProduct = Infty False, magnitudeA = Infty False, magnitudeB = Infty False,
             cosineSimilarity = NaN, angleDegrees = NaN, dimensions = 1\<rparr>"
proof -
  have "list_all isFinite (parseVectorString (utf16 ''1e200''))"
    unfolding parse_1e200 by simp
  then show ?thesis
    using double_pow_600 example_overflow example_1e200 by simp
qed

section \<open>Totality\<close>

text \<open>
  Both functions are total: the loop of the calculator and the scan of \<^verbatim>\<open>split\<close> are
  recursive functions whose termination is proved where they are defined (the loop by
  the distance of the index from the length, the scan by the length of what is left to
  read). In the embedding with exceptions as values a call completes normally or throws.
  It does throw on \<^verbatim>\<open>null\<close> and \<^verbatim>\<open>undefined\<close>, which are not of the declared types:
\<close>

lemma throws_on_null:
  "parseVectorString_ex Null = Inl TypeError"
  "parseVectorString_ex Undefined = Inl TypeError"
  "calculateCosineSimilarity_ex acos_impl Null vecB = Inl TypeError"
  "calculateCosineSimilarity_ex acos_impl Undefined vecB = Inl TypeError"
  "calculateCosineSimilarity_ex acos_impl (Val [Val a]) Null = Inl TypeError"
  "calculateCosineSimilarity_ex acos_impl (Val []) Null = Inr None"
  by (simp_all add: parseVectorString_ex_def String_split_ex_def calculateCosineSimilarity_ex_def
      get_length_def)

text \<open>
  On a string, and on arrays of numbers, every operation completes normally, and the
  value is the one the first embedding computes. An element that is \<^verbatim>\<open>null\<close> or
  \<^verbatim>\<open>undefined\<close> is converted to a number and throws nothing either.
\<close>

lemma Array_map_ex_normal: "Array_map_ex (\<lambda>x. Inr (f x)) xs = Inr (map f xs)"
  by (induction xs) simp_all

lemma Array_filter_ex_normal: "Array_filter_ex (\<lambda>x. Inr (P x)) xs = Inr (filter P xs)"
  by (induction xs) simp_all

lemma parseVectorString_ex_string:
  "parseVectorString_ex (Val input) = Inr (parseVectorString input)"
  by (simp add: parseVectorString_ex_def String_split_ex_def Array_map_ex_normal
      Array_filter_ex_normal parseVectorString_def)

lemma sum_loop_ex_arrays:
  "sum_loop_ex (Val xs) (Val ys) i acc =
     Inr (sum_loop (map ToNumber xs) (map ToNumber ys) i acc)"
proof (induction "length xs - i" arbitrary: i acc)
  case 0
  obtain d sa sb where acc: "acc = (d, sa, sb)" by (cases acc) auto
  show ?case using 0 unfolding acc
    by (subst sum_loop_ex.simps, subst sum_loop.simps) (simp add: get_length_def)
next
  case (Suc n)
  obtain d sa sb where acc: "acc = (d, sa, sb)" by (cases acc) auto
  have i: "i < length xs" using Suc(2) by simp
  have n: "n = length xs - Suc i" using Suc(2) by simp
  have a: "get_element (Val xs) i = Inr (xs ! i)"
    using i by (simp add: get_element_def)
  have b: "get_element (Val ys) i = Inr (if i < length ys then ys ! i else Undefined)"
    by (simp add: get_element_def)
  have na: "ToNumber (xs ! i) = at_index (map ToNumber xs) i"
    using i by (simp add: at_index_def)
  have nb: "ToNumber (if i < length ys then ys ! i else Undefined) = at_index (map ToNumber ys) i"
    by (simp add: at_index_def)
  show ?case unfolding acc
    using i
    by (subst sum_loop_ex.simps, subst sum_loop.simps)
       (simp add: get_length_def a b na nb Suc(1)[OF n] del: if_split cong: if_cong)
qed

lemma calculateCosineSimilarity_ex_arrays:
  "calculateCosineSimilarity_ex acos_impl (Val xs) (Val ys) =
     Inr (calculateCosineSimilarity acos_impl (map ToNumber xs) (map ToNumber ys))"
  by (simp add: calculateCosineSimilarity_ex_def calculateCosineSimilarity_def get_length_def
      sum_loop_ex_arrays Let_def split: prod.split)

lemma ToNumber_Val: "map ToNumber (map Val vec) = vec"
  by (induction vec) simp_all

lemma calculateCosineSimilarity_ex_numbers:
  "calculateCosineSimilarity_ex acos_impl (Val (map Val vecA)) (Val (map Val vecB)) =
     Inr (calculateCosineSimilarity acos_impl vecA vecB)"
  by (simp only: calculateCosineSimilarity_ex_arrays ToNumber_Val)

lemma example_infinite:
  "calculateCosineSimilarity acos_impl [Infty False] [Num False 1] =
     Some \<lparr>dotProduct = Infty False, magnitudeA = Infty False, magnitudeB = Num False 1,
           cosineSimilarity = NaN, angleDegrees = NaN, dimensions = 1\<rparr>"
proof -
  have d: "dot_product_spec [Infty False] [Num False 1] = Infty False"
    by (simp add: dot_product_spec_def)
  have a: "magnitude_spec [Infty False] = Infty False"
    by (simp add: magnitude_spec_def)
  have b: "magnitude_spec [Num False 1] = Num False 1"
    by (simp add: eval_simps)
  show ?thesis
    using d a b by (simp add: calculateCosineSimilarity_spec clamp_NaN degrees_spec_def)
qed

text \<open>
  Claim C6. Neither function throws, and both return, on every input of the declared
  types: for every string \<^verbatim>\<open>parseVectorString\<close> completes normally with its list of
  numbers, and for every two arrays of numbers \<^verbatim>\<open>calculateCosineSimilarity\<close> completes
  normally with \<^verbatim>\<open>null\<close> or a result. Every degenerate case is a value: \<^verbatim>\<open>null\<close> for an
  empty vector or a length mismatch, and otherwise a result, whose cosine similarity and
  angle are \<open>0\<close> when a computed magnitude is zero, and whose fields hold the infinities
  and \<open>NaN\<close> that the arithmetic produces (at \<open>[2 ^ 600]\<close>, \<open>[2 ^ 600]\<close>, where the sums
  overflow, and at \<open>[\<infinity>]\<close>, \<open>[1]\<close>).
\<close>

theorem never_throws:
  "parseVectorString_ex (Val input) = Inr (parseVectorString input)
   \<and> calculateCosineSimilarity_ex acos_impl (Val (map Val vecA)) (Val (map Val vecB)) =
       Inr (calculateCosineSimilarity acos_impl vecA vecB)
   \<and> (vecA = [] \<or> vecB = [] \<or> length vecA \<noteq> length vecB
      \<longrightarrow> calculateCosineSimilarity_ex acos_impl (Val (map Val vecA)) (Val (map Val vecB)) =
            Inr None)
   \<and> (vecA \<noteq> [] \<and> length vecA = length vecB
      \<longrightarrow> (\<exists>r. calculateCosineSimilarity_ex acos_impl (Val (map Val vecA)) (Val (map Val vecB)) =
                 Inr (Some r)
               \<and> dimensions r = length vecA
               \<and> ((feq (magnitudeA r) (Num False 0) \<or> feq (magnitudeB r) (Num False 0))
                    \<longrightarrow> cosineSimilarity r = Num False 0 \<and> angleDegrees r = Num False 0)))
   \<and> calculateCosineSimilarity_ex acos_impl
         (Val [Val (Num False (2 ^ 600))]) (Val [Val (Num False (2 ^ 600))]) =
       Inr (Some \<lparr>dotProduct = Infty False, magnitudeA = Infty False, magnitudeB = Infty False,
                  cosineSimilarity = NaN, angleDegrees = NaN, dimensions = 1\<rparr>)
   \<and> calculateCosineSimilarity_ex acos_impl (Val [Val (Infty False)]) (Val [Val (Num False 1)]) =
       Inr (Some \<lparr>dotProduct = Infty False, magnitudeA = Infty False, magnitudeB = Num False 1,
                  cosineSimilarity = NaN, angleDegrees = NaN, dimensions = 1\<rparr>)"
  (is "?parse \<and> ?calc \<and> ?null \<and> ?result \<and> ?overflow \<and> ?infinite")
proof -
  have null: ?null
    by (auto simp: calculateCosineSimilarity_ex_numbers calculateCosineSimilarity_def)
  have result: ?result
  proof (intro impI, elim conjE)
    assume ok: "vecA \<noteq> []" "length vecA = length vecB"
    show "\<exists>r. calculateCosineSimilarity_ex acos_impl (Val (map Val vecA)) (Val (map Val vecB)) =
                 Inr (Some r)
               \<and> dimensions r = length vecA
               \<and> ((feq (magnitudeA r) (Num False 0) \<or> feq (magnitudeB r) (Num False 0))
                    \<longrightarrow> cosineSimilarity r = Num False 0 \<and> angleDegrees r = Num False 0)"
      unfolding calculateCosineSimilarity_ex_numbers
        calculateCosineSimilarity_spec[OF ok(2) ok(1)]
      by simp
  qed
  have overflow: ?overflow
    using calculateCosineSimilarity_ex_numbers[of acos_impl "[Num False (2 ^ 600)]"
        "[Num False (2 ^ 600)]"] example_overflow[of acos_impl]
    by simp
  have infinite: ?infinite
    using calculateCosineSimilarity_ex_numbers[of acos_impl "[Infty False]" "[Num False 1]"]
    by (simp add: example_infinite)
  show ?thesis
    by (intro conjI parseVectorString_ex_string calculateCosineSimilarity_ex_numbers
        null result overflow infinite)
qed

theorem never_throws_witness:
  "parseVectorString_ex (Val (utf16 ''a, 2, b'')) = Inr [Num False 2]
   \<and> [Num False 0, Num False 0] \<noteq> []
   \<and> length [Num False 0, Num False 0] = length [Num False 1, Num False 2]
   \<and> calculateCosineSimilarity_ex acos_rounded
         (Val [Val (Num False 0), Val (Num False 0)]) (Val [Val (Num False 1), Val (Num False 2)]) =
       Inr (Some \<lparr>dotProduct = Num False 0, magnitudeA = Num False 0,
                  magnitudeB = Num False (629397181890197 / 2 ^ 48),
                  cosineSimilarity = Num False 0, angleDegrees = Num False 0, dimensions = 2\<rparr>)
   \<and> length [Num False 1, Num False 2] \<noteq> length [Num False 1, Num False 2, Num False 3]
   \<and> calculateCosineSimilarity_ex acos_rounded
         (Val [Val (Num False 1), Val (Num False 2)])
         (Val [Val (Num False 1), Val (Num False 2), Val (Num False 3)]) = Inr None
   \<and> calculateCosineSimilarity_ex acos_rounded
         (Val [Val (Num False 3), Val (Num False 0)]) (Val [Val (Num False 0), Val (Num False 4)]) =
       Inr (Some \<lparr>dotProduct = Num False 0, magnitudeA = Num False 3, magnitudeB = Num False 4,
                  cosineSimilarity = Num False 0, angleDegrees = Num False 90, dimensions = 2\<rparr>)"
proof -
  note zero = never_throws[of "utf16 ''a, 2, b''" acos_rounded
      "[Num False 0, Num False 0]" "[Num False 1, Num False 2]"]
  note mismatch = never_throws[of "[]" acos_rounded
      "[Num False 1, Num False 2]" "[Num False 1, Num False 2, Num False 3]"]
  note right = never_throws[of "[]" acos_rounded
      "[Num False 3, Num False 0]" "[Num False 0, Num False 4]"]
  have p: "parseVectorString_ex (Val (utf16 ''a, 2, b'')) = Inr [Num False 2]"
    using zero by (simp only: parse_a_2_b)
  have z: "calculateCosineSimilarity_ex acos_rounded
         (Val [Val (Num False 0), Val (Num False 0)]) (Val [Val (Num False 1), Val (Num False 2)]) =
       Inr (Some \<lparr>dotProduct = Num False 0, magnitudeA = Num False 0,
                  magnitudeB = Num False (629397181890197 / 2 ^ 48),
                  cosineSimilarity = Num False 0, angleDegrees = Num False 0, dimensions = 2\<rparr>)"
    using zero example_zero[of acos_rounded] round64_sqrt_5 by simp
  have "length [Num False 1, Num False 2] \<noteq> length [Num False 1, Num False 2, Num False 3]"
    by simp
  then have "calculateCosineSimilarity_ex acos_rounded
         (Val (map Val [Num False 1, Num False 2]))
         (Val (map Val [Num False 1, Num False 2, Num False 3])) = Inr None"
    using mismatch by blast
  then have m: "calculateCosineSimilarity_ex acos_rounded
         (Val [Val (Num False 1), Val (Num False 2)])
         (Val [Val (Num False 1), Val (Num False 2), Val (Num False 3)]) = Inr None"
    by simp
  have r: "calculateCosineSimilarity_ex acos_rounded
         (Val [Val (Num False 3), Val (Num False 0)]) (Val [Val (Num False 0), Val (Num False 4)]) =
       Inr (Some \<lparr>dotProduct = Num False 0, magnitudeA = Num False 3, magnitudeB = Num False 4,
                  cosineSimilarity = Num False 0, angleDegrees = Num False 90, dimensions = 2\<rparr>)"
    using right example_3_4[of acos_rounded, OF acos_rounded_zero] by simp
  show ?thesis using p z m r by simp
qed

section \<open>Purity\<close>

text \<open>
  Over a store the loop returns the store it was given, and what it computes is what
  the loop over two lists computes on the contents of the two arrays.
\<close>

lemma sum_loop_st_pure:
  "sum_loop_st vecA vecB i acc st =
     (sum_loop (numbers_at st vecA) (numbers_at st vecB) i acc, st)"
proof (induction "length (numbers_at st vecA) - i" arbitrary: i acc)
  case 0
  obtain d sa sb where acc: "acc = (d, sa, sb)" by (cases acc) auto
  show ?case using 0 unfolding acc
    by (subst sum_loop_st.simps, subst sum_loop.simps) simp
next
  case (Suc n)
  obtain d sa sb where acc: "acc = (d, sa, sb)" by (cases acc) auto
  have i: "i < length (numbers_at st vecA)" using Suc(2) by simp
  have n: "n = length (numbers_at st vecA) - Suc i" using Suc(2) by simp
  show ?case unfolding acc
    using i by (subst sum_loop_st.simps, subst sum_loop.simps) (simp add: Suc(1)[OF n])
qed

lemma calculateCosineSimilarity_st_pure:
  "calculateCosineSimilarity_st acos_impl vecA vecB st =
     (calculateCosineSimilarity acos_impl (numbers_at st vecA) (numbers_at st vecB), st)"
  by (simp add: calculateCosineSimilarity_st_def calculateCosineSimilarity_def sum_loop_st_pure
      Let_def split: prod.split)

lemma alloc_result:
  "alloc c st = (r, st') \<Longrightarrow>
     r = next_ref st \<and> cells st' r = c \<and> next_ref st' = next_ref st + 1
     \<and> (\<forall>q. q \<noteq> next_ref st \<longrightarrow> cells st' q = cells st q)"
  by (auto simp: alloc_def)

lemma parseVectorString_st_pure:
  assumes "parseVectorString_st input st = (r, st')"
  shows "numbers_at st' r = parseVectorString input"
    and "\<forall>q < next_ref st. cells st' q = cells st q"
    and "next_ref st \<le> r" "r < next_ref st'"
  using assms
  by (auto simp: parseVectorString_st_def String_split_def Array_map_parse_def
      Array_filter_valid_def alloc_def numbers_at_def strings_at_def parseVectorString_def Let_def)



text \<open>
  Claim C7. \<^verbatim>\<open>calculateCosineSimilarity\<close> leaves the store as it was, so it writes
  nothing and does not change its arguments, and its result is a function of the
  contents of its two arguments only: two calls on arrays with the same contents, in
  whatever stores and at whatever references, return the same result.
  \<^verbatim>\<open>parseVectorString\<close> changes no cell that was allocated before the call, returns a
  new array, and the contents of that array depend on the input string only.
\<close>

theorem pure_and_deterministic:
  "snd (calculateCosineSimilarity_st acos_impl vecA vecB st) = st
   \<and> fst (calculateCosineSimilarity_st acos_impl vecA vecB st) =
       calculateCosineSimilarity acos_impl (numbers_at st vecA) (numbers_at st vecB)
   \<and> (numbers_at st vecA = numbers_at st2 vecA2 \<and> numbers_at st vecB = numbers_at st2 vecB2
        \<longrightarrow> fst (calculateCosineSimilarity_st acos_impl vecA vecB st) =
            fst (calculateCosineSimilarity_st acos_impl vecA2 vecB2 st2))
   \<and> (\<forall>q < next_ref st. cells (snd (parseVectorString_st input st)) q = cells st q)
   \<and> next_ref st \<le> fst (parseVectorString_st input st)
   \<and> numbers_at (snd (parseVectorString_st input st)) (fst (parseVectorString_st input st)) =
       parseVectorString input
   \<and> numbers_at (snd (parseVectorString_st input st)) (fst (parseVectorString_st input st)) =
       numbers_at (snd (parseVectorString_st input st2)) (fst (parseVectorString_st input st2))"
proof -
  obtain r st' where p: "parseVectorString_st input st = (r, st')"
    by (cases "parseVectorString_st input st") auto
  obtain r2 st2' where p2: "parseVectorString_st input st2 = (r2, st2')"
    by (cases "parseVectorString_st input st2") auto
  show ?thesis
    using parseVectorString_st_pure[OF p] parseVectorString_st_pure[OF p2]
    by (simp add: calculateCosineSimilarity_st_pure p p2)
qed


theorem pure_and_deterministic_witness:
  "numbers_at store_a 0 = numbers_at store_b 5 \<and> numbers_at store_a 1 = numbers_at store_b 7
   \<and> fst (calculateCosineSimilarity_st acos_rounded 0 1 store_a) = fst (calculateCosineSimilarity_st acos_rounded 5 7 store_b)
   \<and> snd (calculateCosineSimilarity_st acos_rounded 0 1 store_a) = store_a
   \<and> cells (snd (parseVectorString_st (utf16 ''2, 1'') store_a)) 0 = cells store_a 0
   \<and> cells (snd (parseVectorString_st (utf16 ''2, 1'') store_a)) 1 = cells store_a 1
   \<and> numbers_at (snd (parseVectorString_st (utf16 ''2, 1'') store_a))
        (fst (parseVectorString_st (utf16 ''2, 1'') store_a)) = [Num False 2, Num False 1]"
proof -
  note c7 = pure_and_deterministic[of acos_rounded 0 1 store_a store_b 5 7 "utf16 ''2, 1''"]
  have a: "numbers_at store_a 0 = numbers_at store_b 5" "numbers_at store_a 1 = numbers_at store_b 7"
    by (simp_all add: numbers_at_def store_a_def store_b_def)
  have n: "(0::nat) < next_ref store_a" "(1::nat) < next_ref store_a"
    by (simp_all add: store_a_def)
  have "\<forall>q < next_ref store_a. cells (snd (parseVectorString_st (utf16 ''2, 1'') store_a)) q = cells store_a q"
    using c7 by blast
  then have frame: "cells (snd (parseVectorString_st (utf16 ''2, 1'') store_a)) 0 = cells store_a 0"
      "cells (snd (parseVectorString_st (utf16 ''2, 1'') store_a)) 1 = cells store_a 1"
    using n by blast+
  have "numbers_at (snd (parseVectorString_st (utf16 ''2, 1'') store_a))
        (fst (parseVectorString_st (utf16 ''2, 1'') store_a)) = parseVectorString (utf16 ''2, 1'')"
    using c7 by blast
  then have res: "numbers_at (snd (parseVectorString_st (utf16 ''2, 1'') store_a))
        (fst (parseVectorString_st (utf16 ''2, 1'') store_a)) = [Num False 2, Num False 1]"
    by (simp only: parse_2_1)
  have "fst (calculateCosineSimilarity_st acos_rounded 0 1 store_a) = fst (calculateCosineSimilarity_st acos_rounded 5 7 store_b)"
    using c7 a by blast
  moreover have "snd (calculateCosineSimilarity_st acos_rounded 0 1 store_a) = store_a"
    using c7 by blast
  ultimately show ?thesis using a frame res by blast
qed

end
